theory Spec2Isabelle
  imports Main
begin

section \<open>String primitives of the host language\<close>

text \<open>
  The crawler is written in JavaScript. The few string built-ins that
  \<^verbatim>\<open>parseRange\<close> relies on are modelled here over \<^typ>\<open>string\<close>: splitting at a
  one-character separator, \<^verbatim>\<open>trim\<close>, and \<^verbatim>\<open>parseInt\<close> without a radix argument.
  A \<^typ>\<open>char\<close> stands for a code unit below 256; strings with other code units are
  not represented. A JavaScript number that is \<^verbatim>\<open>NaN\<close> is the value \<open>None\<close>; every
  other number these functions meet is an integer and is kept as an unbounded
  \<^typ>\<open>int\<close>. The code has doubles, which round an integer above \<open>2^53\<close>; the range
  resolver only compares such a number with the number of chapters, the length of an
  array and so below \<open>2^32\<close>, and every comparison comes out the same for the rounded
  and for the exact value.
\<close>

fun split_acc :: "char \<Rightarrow> string \<Rightarrow> string \<Rightarrow> string list" where
  "split_acc sep cur [] = [rev cur]"
| "split_acc sep cur (c # cs) =
     (if c = sep then rev cur # split_acc sep [] cs else split_acc sep (c # cur) cs)"

definition split :: "string \<Rightarrow> char \<Rightarrow> string list" where
  \<comment> \<open>\<^verbatim>\<open>s.split(sep)\<close>: the pieces between the separators, empty pieces kept.\<close>
  "split s sep = split_acc sep [] s"

definition isWhiteSpace :: "char \<Rightarrow> bool" where
  \<comment> \<open>the white space and line terminators of the language below 256: tab, line feed,
      vertical tab, form feed, carriage return, space and the no-break space U+00A0\<close>
  "isWhiteSpace c = (of_char c \<in> {9::nat, 10, 11, 12, 13, 32, 160})"

definition trimStart :: "string \<Rightarrow> string" where
  "trimStart s = dropWhile isWhiteSpace s"

definition trim :: "string \<Rightarrow> string" where
  "trim s = rev (dropWhile isWhiteSpace (rev (dropWhile isWhiteSpace s)))"

definition includes_char :: "string \<Rightarrow> char \<Rightarrow> bool" where
  "includes_char s c = (c \<in> set s)"

definition digitValue :: "char \<Rightarrow> nat option" where
  \<comment> \<open>the value of a digit, letters counting from ten, as \<^verbatim>\<open>parseInt\<close> reads them\<close>
  "digitValue c =
     (let n = (of_char c :: nat) in
      if 48 \<le> n \<and> n \<le> 57 then Some (n - 48)
      else if 97 \<le> n \<and> n \<le> 122 then Some (n - 87)
      else if 65 \<le> n \<and> n \<le> 90 then Some (n - 55)
      else None)"

definition isRadixDigit :: "nat \<Rightarrow> char \<Rightarrow> bool" where
  "isRadixDigit r c = (case digitValue c of None \<Rightarrow> False | Some v \<Rightarrow> v < r)"

definition mathInt :: "nat \<Rightarrow> string \<Rightarrow> int" where
  \<comment> \<open>the integer a digit string denotes in radix \<open>r\<close>\<close>
  "mathInt r z = foldl (\<lambda>acc c. acc * int r + int (case digitValue c of None \<Rightarrow> 0 | Some v \<Rightarrow> v)) 0 z"

definition parseInt :: "string \<Rightarrow> int option" where
  \<comment> \<open>\<^verbatim>\<open>parseInt(s)\<close>: leading white space is skipped, then an optional sign, then an
      optional \<^verbatim>\<open>0x\<close> prefix that selects radix sixteen, then the longest run of
      digits; no digit at all gives \<^verbatim>\<open>NaN\<close>.\<close>
  "parseInt s =
     (let s1 = trimStart s;
          sign = (if s1 \<noteq> [] \<and> hd s1 = CHR ''-'' then - 1 else (1::int));
          s2 = (if s1 \<noteq> [] \<and> (hd s1 = CHR ''+'' \<or> hd s1 = CHR ''-'') then tl s1 else s1);
          hex = (take 2 s2 = ''0x'' \<or> take 2 s2 = ''0X'');
          r = (if hex then 16 else 10);
          s3 = (if hex then drop 2 s2 else s2);
          z = takeWhile (isRadixDigit r) s3
      in if z = [] then None else Some (sign * mathInt r z))"

section \<open>The range resolver\<close>

text \<open>
  \<^verbatim>\<open>parseRange(rangeStr, totalChapters)\<close> of the utilities module. The \<^verbatim>\<open>Set\<close> of
  chapter numbers is a list without repetition in insertion order; the final
  \<^verbatim>\<open>Array.from(chapters).sort((a, b) => a - b)\<close> sorts it ascending.
\<close>

definition set_add :: "int \<Rightarrow> int list \<Rightarrow> int list" where
  \<comment> \<open>\<^verbatim>\<open>chapters.add(i)\<close>\<close>
  "set_add i chapters = (if i \<in> set chapters then chapters else chapters @ [i])"

definition span_indices :: "string \<Rightarrow> int \<Rightarrow> int list" where
  \<comment> \<open>the numbers the loop \<^verbatim>\<open>for (let i = start; i <= Math.min(end, totalChapters); i++)\<close>
      visits for a token that contains a dash; a \<^verbatim>\<open>NaN\<close> end makes the loop
      condition false at once, and an absent or empty \<^verbatim>\<open>endStr\<close> is falsy\<close>
  "span_indices rng totalChapters =
     (let parts = split rng CHR ''-'';
          startStr = (case parts of [] \<Rightarrow> [] | a # _ \<Rightarrow> a);
          endStr = (case parts of a # b # _ \<Rightarrow> b | _ \<Rightarrow> []);
          start = (case parseInt startStr of None \<Rightarrow> 1 | Some n \<Rightarrow> if n = 0 then 1 else n);
          end = (if endStr \<noteq> [] then parseInt endStr else Some totalChapters)
      in case end of None \<Rightarrow> [] | Some e \<Rightarrow> [start .. min e totalChapters])"

definition single_indices :: "string \<Rightarrow> int \<Rightarrow> int list" where
  \<comment> \<open>a token without a dash: \<^verbatim>\<open>if (num > 0 && num <= totalChapters) chapters.add(num)\<close>\<close>
  "single_indices rng totalChapters =
     (case parseInt rng of
        None \<Rightarrow> []
      | Some num \<Rightarrow> if num > 0 \<and> num \<le> totalChapters then [num] else [])"

definition token_indices :: "string \<Rightarrow> int \<Rightarrow> int list" where
  "token_indices rng totalChapters =
     (if includes_char rng CHR ''-'' then span_indices rng totalChapters
      else single_indices rng totalChapters)"

definition parseRange :: "string \<Rightarrow> int \<Rightarrow> int list" where
  "parseRange rangeStr totalChapters =
     (if rangeStr = [] \<or> rangeStr = ''all'' then [1 .. totalChapters]
      else
        let ranges = map trim (split rangeStr CHR '','');
            chapters = foldl (\<lambda>chapters rng.
                                foldl (\<lambda>acc i. set_add i acc) chapters (token_indices rng totalChapters))
                             [] ranges
        in sort chapters)"

section \<open>The crawl state and its checkpoint document\<close>

text \<open>
  The records follow the objects the scraper builds: a chapter entry as
  \<^verbatim>\<open>extractChapterList\<close> returns it, the novel metadata as \<^verbatim>\<open>extractMetadata\<close>
  returns it (a field that is \<^verbatim>\<open>undefined\<close> is \<open>None\<close>), and the state object of
  \<^verbatim>\<open>initState\<close>. A \<^verbatim>\<open>Date\<close> object is represented by the text its
  \<^verbatim>\<open>toISOString()\<close> gives, which determines it; \<open>DateString\<close> is a plain string
  that happens to sit in a field where a date is expected.
\<close>

record ChapterInfo =
  ch_index :: int
  ch_id :: string
  ch_title :: string
  ch_url :: string

record NovelMetadata =
  title :: string
  author :: "string option"
  coverUrl :: "string option"
  synopsis :: "string option"
  tags :: "string list option"
  status :: "string option"
  totalChapters :: int
  sourceUrl :: string
  crawledAt :: string

datatype timestamp = DateObject string | DateString string

record CrawlState =
  url :: string
  metadata :: "NovelMetadata option"
  chapters :: "ChapterInfo list"
  lastCompletedIndex :: int
  completedChapters :: "string list"
  lastUpdated :: timestamp

record Config =
  cfg_url :: string
  outputDir :: string
  cfg_range :: "string option"
  concurrency :: nat
  retries :: nat
  resume :: bool
  force :: bool

definition initState :: "Config \<Rightarrow> string \<Rightarrow> CrawlState" where
  \<comment> \<open>\<open>now\<close> is the clock reading taken by \<^verbatim>\<open>new Date()\<close>\<close>
  "initState cfg now =
     \<lparr> url = cfg_url cfg, metadata = None, chapters = [], lastCompletedIndex = 0,
       completedChapters = [], lastUpdated = DateObject now \<rparr>"

subsection \<open>JSON documents\<close>

text \<open>
  The text of a file is represented by the JSON document it spells. \<^verbatim>\<open>JSON.stringify\<close>
  maps a value to its document: a property that is \<^verbatim>\<open>undefined\<close> is left out, and a
  \<^verbatim>\<open>Date\<close> is written as the string of its \<^verbatim>\<open>toJSON()\<close>. \<^verbatim>\<open>JSON.parse\<close> builds
  plain objects, arrays, strings, numbers and truth values only; it is called without a
  reviver.
\<close>

datatype json =
  JNull
| JBool bool
| JNumber int
| JString string
| JArray "json list"
| JObject "(string \<times> json) list"

definition opt_field :: "string \<Rightarrow> ('a \<Rightarrow> json) \<Rightarrow> 'a option \<Rightarrow> (string \<times> json) list" where
  "opt_field k enc v = (case v of None \<Rightarrow> [] | Some x \<Rightarrow> [(k, enc x)])"

definition json_of_chapter :: "ChapterInfo \<Rightarrow> json" where
  "json_of_chapter c =
     JObject [(''index'', JNumber (ch_index c)), (''id'', JString (ch_id c)),
              (''title'', JString (ch_title c)), (''url'', JString (ch_url c))]"

definition json_of_metadata :: "NovelMetadata \<Rightarrow> json" where
  "json_of_metadata m =
     JObject ([(''title'', JString (title m))]
              @ opt_field ''author'' JString (author m)
              @ opt_field ''coverUrl'' JString (coverUrl m)
              @ opt_field ''synopsis'' JString (synopsis m)
              @ opt_field ''tags'' (\<lambda>ts. JArray (map JString ts)) (tags m)
              @ opt_field ''status'' JString (status m)
              @ [(''totalChapters'', JNumber (totalChapters m)),
                 (''sourceUrl'', JString (sourceUrl m)),
                 (''crawledAt'', JString (crawledAt m))])"

definition json_of_timestamp :: "timestamp \<Rightarrow> json" where
  "json_of_timestamp t = (case t of DateObject text \<Rightarrow> JString text | DateString s \<Rightarrow> JString s)"

definition JSON_stringify :: "CrawlState \<Rightarrow> json" where
  \<comment> \<open>\<^verbatim>\<open>JSON.stringify(this.state, null, 2)\<close>\<close>
  "JSON_stringify st =
     JObject [(''url'', JString (url st)),
              (''metadata'', (case metadata st of None \<Rightarrow> JNull | Some m \<Rightarrow> json_of_metadata m)),
              (''chapters'', JArray (map json_of_chapter (chapters st))),
              (''lastCompletedIndex'', JNumber (lastCompletedIndex st)),
              (''completedChapters'', JArray (map JString (completedChapters st))),
              (''lastUpdated'', json_of_timestamp (lastUpdated st))]"

text \<open>
  Reading a parsed object as a state. The scraper uses the parsed object as it is; the
  records of this model can hold it when its fields have the types the scraper expects,
  and \<open>read_state\<close> is \<open>None\<close> for every other object. Properties that the scraper
  never reads are not kept. A missing \<^verbatim>\<open>completedChapters\<close> is the old format, to which
  \<^verbatim>\<open>loadState\<close> adds the empty list.
\<close>

definition get_field :: "string \<Rightarrow> json \<Rightarrow> json option" where
  "get_field k j = (case j of JObject kvs \<Rightarrow> map_of kvs k | _ \<Rightarrow> None)"

definition as_string :: "json \<Rightarrow> string option" where
  "as_string j = (case j of JString s \<Rightarrow> Some s | _ \<Rightarrow> None)"

definition as_number :: "json \<Rightarrow> int option" where
  "as_number j = (case j of JNumber n \<Rightarrow> Some n | _ \<Rightarrow> None)"

fun sequence :: "'a option list \<Rightarrow> 'a list option" where
  "sequence [] = Some []"
| "sequence (x # xs) =
     (case x of None \<Rightarrow> None
      | Some y \<Rightarrow> (case sequence xs of None \<Rightarrow> None | Some ys \<Rightarrow> Some (y # ys)))"

definition as_list :: "(json \<Rightarrow> 'a option) \<Rightarrow> json \<Rightarrow> 'a list option" where
  "as_list dec j = (case j of JArray xs \<Rightarrow> sequence (map dec xs) | _ \<Rightarrow> None)"

definition required :: "string \<Rightarrow> (json \<Rightarrow> 'a option) \<Rightarrow> json \<Rightarrow> 'a option" where
  "required k dec j = (case get_field k j of None \<Rightarrow> None | Some v \<Rightarrow> dec v)"

definition optional :: "string \<Rightarrow> (json \<Rightarrow> 'a option) \<Rightarrow> json \<Rightarrow> 'a option option" where
  \<comment> \<open>an absent property reads as \<^verbatim>\<open>undefined\<close>\<close>
  "optional k dec j =
     (case get_field k j of None \<Rightarrow> Some None
      | Some v \<Rightarrow> (case dec v of None \<Rightarrow> None | Some x \<Rightarrow> Some (Some x)))"

definition chapter_of_json :: "json \<Rightarrow> ChapterInfo option" where
  "chapter_of_json j =
     (case (required ''index'' as_number j, required ''id'' as_string j,
            required ''title'' as_string j, required ''url'' as_string j) of
        (Some i, Some d, Some t, Some u) \<Rightarrow>
          Some \<lparr> ch_index = i, ch_id = d, ch_title = t, ch_url = u \<rparr>
      | _ \<Rightarrow> None)"

definition metadata_of_json :: "json \<Rightarrow> NovelMetadata option" where
  "metadata_of_json j =
     (case (required ''title'' as_string j, optional ''author'' as_string j,
            optional ''coverUrl'' as_string j, optional ''synopsis'' as_string j,
            optional ''tags'' (as_list as_string) j, optional ''status'' as_string j,
            required ''totalChapters'' as_number j, required ''sourceUrl'' as_string j,
            required ''crawledAt'' as_string j) of
        (Some t, Some a, Some c, Some s, Some g, Some u, Some n, Some src, Some at) \<Rightarrow>
          Some \<lparr> title = t, author = a, coverUrl = c, synopsis = s, tags = g, status = u,
                 totalChapters = n, sourceUrl = src, crawledAt = at \<rparr>
      | _ \<Rightarrow> None)"

definition read_state :: "json \<Rightarrow> CrawlState option" where
  "read_state j =
     (case (required ''url'' as_string j,
            (case get_field ''metadata'' j of
               None \<Rightarrow> Some None
             | Some JNull \<Rightarrow> Some None
             | Some m \<Rightarrow> (case metadata_of_json m of None \<Rightarrow> None | Some x \<Rightarrow> Some (Some x))),
            required ''chapters'' (as_list chapter_of_json) j,
            required ''lastCompletedIndex'' as_number j,
            optional ''completedChapters'' (as_list as_string) j,
            required ''lastUpdated'' as_string j) of
        (Some u, Some m, Some cs, Some l, Some completed, Some t) \<Rightarrow>
          Some \<lparr> url = u, metadata = m, chapters = cs, lastCompletedIndex = l,
                 completedChapters = (case completed of None \<Rightarrow> [] | Some ids \<Rightarrow> ids),
                 lastUpdated = DateString t \<rparr>
      | _ \<Rightarrow> None)"

subsection \<open>The file system\<close>

text \<open>
  The text of a file either spells a JSON document or is text on which \<^verbatim>\<open>JSON.parse\<close>
  throws. A file system holds the texts written so far and says, for every path, whether
  a write to it fails and with which message (\<^verbatim>\<open>ensureDir\<close> and \<^verbatim>\<open>fs.writeFile\<close>
  together). \<^verbatim>\<open>writeFile\<close> has no handler of its own: the failure is its result.
\<close>

datatype file_text = Json json | NotJson

record FileSystem =
  files :: "string \<Rightarrow> file_text option"
  write_fault :: "string \<Rightarrow> string option"

definition path_join :: "string \<Rightarrow> string \<Rightarrow> string" where
  "path_join dir name = dir @ ''/'' @ name"

definition writeFile :: "FileSystem \<Rightarrow> string \<Rightarrow> file_text \<Rightarrow> string + FileSystem" where
  "writeFile fs filePath content =
     (case write_fault fs filePath of
        Some err \<Rightarrow> Inl err
      | None \<Rightarrow> Inr (fs\<lparr> files := (files fs)(filePath \<mapsto> content) \<rparr>))"

definition fileExists :: "FileSystem \<Rightarrow> string \<Rightarrow> bool" where
  "fileExists fs filePath = (files fs filePath \<noteq> None)"

definition readFile :: "FileSystem \<Rightarrow> string \<Rightarrow> file_text option" where
  \<comment> \<open>\<open>None\<close> is the \<^verbatim>\<open>null\<close> that \<^verbatim>\<open>readFile\<close> returns when reading fails\<close>
  "readFile fs filePath = files fs filePath"

definition saveState :: "Config \<Rightarrow> CrawlState \<Rightarrow> FileSystem \<Rightarrow> string + FileSystem" where
  "saveState cfg st fs =
     (let stateFile = path_join (outputDir cfg) ''state.json''
      in writeFile fs stateFile (Json (JSON_stringify st)))"

text \<open>
  \<^verbatim>\<open>loadState\<close> leaves in \<^verbatim>\<open>this.state\<close> either a state that the records can hold, or
  an object or array that they cannot: \<open>Untyped\<close> with the parsed document, to which the
  scraper has added an empty \<^verbatim>\<open>completedChapters\<close> where that was missing. Inside the
  \<^verbatim>\<open>try\<close> block three things throw and end in \<^verbatim>\<open>initState\<close>: a text that is no
  JSON, the document \<^verbatim>\<open>null\<close> (also what a failed read gives), whose property cannot be
  read, and a number, string or truth value, to which the module, being in strict mode,
  cannot add the missing property.
\<close>

datatype loaded = Typed CrawlState | Untyped json

definition loadState :: "Config \<Rightarrow> string \<Rightarrow> FileSystem \<Rightarrow> loaded" where
  "loadState cfg now fs =
     (let stateFile = path_join (outputDir cfg) ''state.json''
      in if resume cfg \<and> fileExists fs stateFile then
           (case readFile fs stateFile of
              None \<Rightarrow> Typed (initState cfg now)
            | Some NotJson \<Rightarrow> Typed (initState cfg now)
            | Some (Json stateData) \<Rightarrow>
                (case stateData of
                   JObject kvs \<Rightarrow>
                     (case read_state stateData of
                        None \<Rightarrow> Untyped stateData
                      | Some st \<Rightarrow> Typed st)
                 | JArray xs \<Rightarrow> Untyped stateData
                 | _ \<Rightarrow> Typed (initState cfg now)))
         else Typed (initState cfg now))"

section \<open>Choosing the chapters to scrape\<close>

definition array_includes :: "'a list \<Rightarrow> 'a \<Rightarrow> bool" where
  \<comment> \<open>\<^verbatim>\<open>array.includes(x)\<close>\<close>
  "array_includes xs x = (x \<in> set xs)"

definition targetIndexes :: "Config \<Rightarrow> CrawlState \<Rightarrow> int list" where
  \<comment> \<open>\<^verbatim>\<open>if (this.config.range)\<close> is false for \<^verbatim>\<open>undefined\<close> and for the empty string\<close>
  "targetIndexes cfg st =
     (case cfg_range cfg of
        None \<Rightarrow> [1 .. int (length (chapters st))]
      | Some r \<Rightarrow>
          if r \<noteq> [] then parseRange r (int (length (chapters st)))
          else [1 .. int (length (chapters st))])"

definition getChaptersToScrape :: "Config \<Rightarrow> CrawlState \<Rightarrow> ChapterInfo list" where
  "getChaptersToScrape cfg st =
     (if chapters st = [] then []
      else filter (\<lambda>chapter.
             if \<not> array_includes (targetIndexes cfg st) (ch_index chapter) then False
             else if \<not> force cfg \<and> array_includes (completedChapters st) (ch_id chapter) then False
             else True) (chapters st))"

section \<open>Scraping the chapters\<close>

text \<open>
  What a piece of code throws is an \<^verbatim>\<open>Error\<close> with its message, a \<^verbatim>\<open>TypeError\<close> with its
  message, or a value that is no error object at all: \<^verbatim>\<open>null\<close>, \<^verbatim>\<open>undefined\<close>, or
  another value, kept as the text that \<^verbatim>\<open>${error}\<close> gives. The retry library tells these
  apart.
\<close>

datatype thrown = Error string | TypeError string | NonError string | ThrownNull | ThrownUndefined

text \<open>
  One attempt of \<^verbatim>\<open>scrapeChapter\<close> meets the outside world four times: creating the
  page, fetching the chapter (\<^verbatim>\<open>setupPage\<close>, \<^verbatim>\<open>extractChapterContent\<close> and
  \<^verbatim>\<open>saveChapterContent\<close>, the three awaited steps before the state is touched), reading
  the clock, and closing the page. An \<open>Attempt\<close> records what the world answers.
\<close>

record ChapterContent =
  info :: ChapterInfo
  content :: string
  images :: "string list"
  wordCount :: nat

record Attempt =
  createPage :: "thrown option"
  fetched :: "thrown + ChapterContent"
  clock :: string
  closePage :: "thrown option"

record ProgressTracker =
  total_count :: nat
  current :: nat
  errors :: nat


definition increment :: "ProgressTracker \<Rightarrow> ProgressTracker" where
  "increment p = p\<lparr> current := current p + 1 \<rparr>"

definition addError :: "ProgressTracker \<Rightarrow> ProgressTracker" where
  "addError p = p\<lparr> errors := errors p + 1 \<rparr>"

definition commit :: "ChapterInfo \<Rightarrow> string \<Rightarrow> CrawlState \<Rightarrow> CrawlState" where
  \<comment> \<open>the block headed \<^verbatim>\<open>// Update state\<close>; it runs without an \<^verbatim>\<open>await\<close> in between\<close>
  "commit chapterInfo now st =
     st\<lparr> completedChapters :=
           (if \<not> array_includes (completedChapters st) (ch_id chapterInfo)
            then completedChapters st @ [ch_id chapterInfo]
            else completedChapters st),
         lastCompletedIndex := max (lastCompletedIndex st) (ch_index chapterInfo),
         lastUpdated := DateObject now \<rparr>"

definition catch_and_rethrow :: "thrown \<Rightarrow> thrown" where
  \<comment> \<open>the \<^verbatim>\<open>catch\<close> block of an attempt: it reads \<^verbatim>\<open>error.message\<close> for the log, which
      itself throws when the value caught is \<^verbatim>\<open>null\<close> or \<^verbatim>\<open>undefined\<close>, and then throws
      the error again\<close>
  "catch_and_rethrow error =
     (case error of
        ThrownNull \<Rightarrow> TypeError (''Cannot read properties of null (reading '' @ [CHR 0x27]
                                 @ ''message'' @ [CHR 0x27] @ '')'')
      | ThrownUndefined \<Rightarrow> TypeError (''Cannot read properties of undefined (reading '' @ [CHR 0x27]
                                 @ ''message'' @ [CHR 0x27] @ '')'')
      | _ \<Rightarrow> error)"

definition attempt ::
  "Config \<Rightarrow> ChapterInfo \<Rightarrow> Attempt \<Rightarrow> CrawlState \<times> FileSystem
     \<Rightarrow> (thrown + ChapterContent) \<times> (CrawlState \<times> FileSystem)" where
  \<comment> \<open>the function handed to \<^verbatim>\<open>retryWithBackoff\<close>. The page is created before the
      \<^verbatim>\<open>try\<close> block; a failed write of the state file throws an \<^verbatim>\<open>Error\<close>; an error
      thrown by \<^verbatim>\<open>page.close()\<close> in the \<^verbatim>\<open>finally\<close> block replaces the outcome of the
      \<^verbatim>\<open>try\<close> block.\<close>
  "attempt cfg chapterInfo env w =
     (case createPage env of
        Some err \<Rightarrow> (Inl err, w)
      | None \<Rightarrow>
          let (r, w') =
                (case fetched env of
                   Inl err \<Rightarrow> (Inl (catch_and_rethrow err), w)
                 | Inr c \<Rightarrow>
                     let st' = commit chapterInfo (clock env) (fst w) in
                     if length (completedChapters st') mod 5 = 0 then
                       (case saveState cfg st' (snd w) of
                          Inl err \<Rightarrow> (Inl (catch_and_rethrow (Error err)), (st', snd w))
                        | Inr fs' \<Rightarrow> (Inr c, (st', fs')))
                     else (Inr c, (st', snd w)))
          in (case closePage env of Some err \<Rightarrow> (Inl err, w') | None \<Rightarrow> (r, w')))"

text \<open>
  \<^verbatim>\<open>retryWithBackoff\<close> hands the function to \<^verbatim>\<open>pRetry\<close> of the library p-retry, which
  is modelled here as far as the scraper uses it (it never throws the library's
  \<^verbatim>\<open>AbortError\<close>). When an attempt throws, the library decides: a value that is no
  error object ends the run with a new \<^verbatim>\<open>TypeError\<close>; a \<^verbatim>\<open>TypeError\<close> ends the run at
  once unless its message is one of those with which a network failure is reported;
  every other error is recorded, and the function is tried again while retries are
  left. When none is left the run ends with the main error of those recorded: the
  error whose message has occurred most often, the later one when two are level. The
  table of network messages belongs to the library; it is the parameter
  \<open>isNetworkError\<close>. The waits between the attempts do not change the state.
\<close>

datatype verdict = Reject thrown | Retry thrown

definition non_error_message :: "string \<Rightarrow> string" where
  "non_error_message text =
     ''Non-error was thrown: '' @ [CHR 0x22] @ text @ [CHR 0x22] @ ''. You should only throw errors.''"

definition on_failed_attempt :: "(string \<Rightarrow> bool) \<Rightarrow> thrown \<Rightarrow> verdict" where
  "on_failed_attempt isNetworkError error =
     (case error of
        Error m \<Rightarrow> Retry error
      | TypeError m \<Rightarrow> if isNetworkError m then Retry error else Reject error
      | NonError text \<Rightarrow> Reject (TypeError (non_error_message text))
      | ThrownNull \<Rightarrow> Reject (TypeError (non_error_message ''null''))
      | ThrownUndefined \<Rightarrow> Reject (TypeError (non_error_message ''undefined'')))"

definition message :: "thrown \<Rightarrow> string" where
  "message error = (case error of Error m \<Rightarrow> m | TypeError m \<Rightarrow> m | _ \<Rightarrow> [])"

fun mainError_loop :: "thrown list \<Rightarrow> string list \<Rightarrow> thrown option \<Rightarrow> nat \<Rightarrow> thrown option" where
  \<comment> \<open>the loop of \<^verbatim>\<open>mainError\<close> in the library retry; \<open>seen\<close> holds the messages met so
      far, of which \<^verbatim>\<open>counts\<close> is the tally\<close>
  "mainError_loop [] seen mainError mainErrorCount = mainError"
| "mainError_loop (error # rest) seen mainError mainErrorCount =
     (let n = count_list seen (message error) + 1 in
      if n \<ge> mainErrorCount then mainError_loop rest (message error # seen) (Some error) n
      else mainError_loop rest (message error # seen) mainError mainErrorCount)"

definition mainError :: "thrown list \<Rightarrow> thrown option" where
  "mainError errs = mainError_loop errs [] None 0"

fun pRetry ::
  "(string \<Rightarrow> bool) \<Rightarrow> nat \<Rightarrow> (nat \<Rightarrow> 'w \<Rightarrow> (thrown + 'a) \<times> 'w) \<Rightarrow> nat \<Rightarrow> thrown list \<Rightarrow> 'w
     \<Rightarrow> (thrown + 'a) \<times> 'w" where
  \<comment> \<open>\<open>pRetry isNetworkError left fn k errs\<close>: attempt number \<open>k\<close> (counted from zero) with
      \<open>left\<close> retries left and the errors \<open>errs\<close> recorded so far; the list handed to
      \<open>mainError\<close> is never empty\<close>
  "pRetry isNetworkError 0 fn k errs w =
     (case fn k w of
        (Inr x, w') \<Rightarrow> (Inr x, w')
      | (Inl error, w') \<Rightarrow>
          (case on_failed_attempt isNetworkError error of
             Reject e \<Rightarrow> (Inl e, w')
           | Retry e \<Rightarrow>
               (case mainError (errs @ [e]) of None \<Rightarrow> (Inl e, w') | Some m \<Rightarrow> (Inl m, w'))))"
| "pRetry isNetworkError (Suc left) fn k errs w =
     (case fn k w of
        (Inr x, w') \<Rightarrow> (Inr x, w')
      | (Inl error, w') \<Rightarrow>
          (case on_failed_attempt isNetworkError error of
             Reject e \<Rightarrow> (Inl e, w')
           | Retry e \<Rightarrow> pRetry isNetworkError left fn (Suc k) (errs @ [e]) w'))"

definition retryWithBackoff ::
  "(string \<Rightarrow> bool) \<Rightarrow> nat \<Rightarrow> (nat \<Rightarrow> 'w \<Rightarrow> (thrown + 'a) \<times> 'w) \<Rightarrow> 'w \<Rightarrow> (thrown + 'a) \<times> 'w" where
  \<comment> \<open>\<^verbatim>\<open>retryWithBackoff(fn, {retries, onFailedAttempt})\<close>; the callback only logs\<close>
  "retryWithBackoff isNetworkError n fn w = pRetry isNetworkError n fn 0 [] w"

definition scrapeChapter ::
  "(string \<Rightarrow> bool) \<Rightarrow> Config \<Rightarrow> (nat \<Rightarrow> Attempt) \<Rightarrow> ChapterInfo \<Rightarrow> CrawlState \<times> FileSystem
     \<Rightarrow> (thrown + ChapterContent) \<times> (CrawlState \<times> FileSystem)" where
  "scrapeChapter isNetworkError cfg envs chapterInfo w =
     retryWithBackoff isNetworkError (retries cfg) (\<lambda>k. attempt cfg chapterInfo (envs k)) w"

text \<open>
  The callback given to the limiter returns nothing when the chapter was scraped and an
  object \<^verbatim>\<open>{ success: false, chapter, error }\<close> from its \<^verbatim>\<open>catch\<close> block. What the retry
  library throws is always an error object, so reading its message there does not
  throw.
\<close>

datatype task_result = Undefined | Failed ChapterInfo thrown

record Summary =
  successful :: nat
  failed :: nat

type_synonym world = "(CrawlState \<times> FileSystem) \<times> ProgressTracker"

definition task ::
  "(string \<Rightarrow> bool) \<Rightarrow> Config \<Rightarrow> (nat \<Rightarrow> Attempt) \<Rightarrow> ChapterInfo \<Rightarrow> world
     \<Rightarrow> task_result \<times> world" where
  "task isNetworkError cfg envs chapter w =
     (case scrapeChapter isNetworkError cfg envs chapter (fst w) of
        (Inr c, w') \<Rightarrow> (Undefined, (w', increment (snd w)))
      | (Inl err, w') \<Rightarrow> (Failed chapter err, (w', addError (snd w))))"

text \<open>
  The tasks are run to completion one after the other, in the order of the list, task
  number \<open>i\<close> meeting the attempts \<open>envs i\<close>. This is the schedule of a limiter of
  width one. With a wider limiter the attempts of several tasks overlap at their
  \<^verbatim>\<open>await\<close>s; the shared state is touched only by the commit block, which runs without
  interruption, so an overlap changes the order of the commits and nothing else. The
  order of the chapters is arbitrary in every statement below.
\<close>

fun run_tasks ::
  "(string \<Rightarrow> bool) \<Rightarrow> Config \<Rightarrow> (nat \<Rightarrow> nat \<Rightarrow> Attempt) \<Rightarrow> nat \<Rightarrow> ChapterInfo list \<Rightarrow> world
     \<Rightarrow> task_result list \<times> world" where
  "run_tasks isNetworkError cfg envs i [] w = ([], w)"
| "run_tasks isNetworkError cfg envs i (chapter # rest) w =
     (let (r, w') = task isNetworkError cfg (envs i) chapter w;
          (rs, w'') = run_tasks isNetworkError cfg envs (Suc i) rest w'
      in (r # rs, w''))"

definition is_failed :: "task_result \<Rightarrow> bool" where
  \<comment> \<open>\<^verbatim>\<open>r && r.success === false\<close>\<close>
  "is_failed r = (case r of Undefined \<Rightarrow> False | Failed c e \<Rightarrow> True)"

definition scrapeChapters ::
  "(string \<Rightarrow> bool) \<Rightarrow> Config \<Rightarrow> (nat \<Rightarrow> nat \<Rightarrow> Attempt) \<Rightarrow> ChapterInfo list \<Rightarrow> world
     \<Rightarrow> (task_result list \<times> Summary) \<times> world" where
  \<comment> \<open>the results of \<^verbatim>\<open>Promise.all\<close> and the two numbers of the logged summary\<close>
  "scrapeChapters isNetworkError cfg envs chs w =
     (let (results, w') = run_tasks isNetworkError cfg envs 0 chs w
      in ((results,
           \<lparr> successful = length (filter (\<lambda>r. r \<noteq> Undefined \<and> \<not> is_failed r) results),
             failed = length (filter is_failed results) \<rparr>), w'))"

definition cleanup ::
  "Config \<Rightarrow> CrawlState option \<Rightarrow> FileSystem \<times> bool \<Rightarrow> (string + unit) \<times> (FileSystem \<times> bool)" where
  \<comment> \<open>the flag says whether the browser is running; \<^verbatim>\<open>browserManager.close()\<close> handles
      its own errors\<close>
  "cleanup cfg state w =
     (case state of
        None \<Rightarrow> (Inr (), (fst w, False))
      | Some st \<Rightarrow>
          (case saveState cfg st (fst w) of
             Inl err \<Rightarrow> (Inl err, w)
           | Inr fs' \<Rightarrow> (Inr (), (fs', False))))"






section \<open>Waiting for the network to go idle\<close>

text \<open>
  \<^verbatim>\<open>waitForNetworkIdle\<close> sees the page's request and response events. A trace lists
  them with the time, in milliseconds since the wait began, at which each arrives, in
  the order of arrival. The idle timer is cleared, or it is the timer set when the wait
  begins, or a timer set later by a response; in both cases with the time at which it
  is due. The overall timer is due at \<open>timeout\<close>. A timer that is due fires before an
  event arriving at the same millisecond. Timers due at the same millisecond fire in
  the order in which they were set: the first idle timer before the overall timer, an
  idle timer set by a response after it. Resolving is \<open>Inr ()\<close>, rejecting is \<open>Inl\<close>
  with the message of the error.
\<close>

datatype net_event = Request | Response

datatype idle_timer = Cleared | First nat | Later nat

definition fires_by :: "idle_timer \<Rightarrow> nat \<Rightarrow> bool" where
  \<comment> \<open>the idle timer is due at the time \<open>t\<close> or before\<close>
  "fires_by idleTimer t =
     (case idleTimer of Cleared \<Rightarrow> False | First due \<Rightarrow> due \<le> t | Later due \<Rightarrow> due \<le> t)"

definition before_timeout :: "idle_timer \<Rightarrow> nat \<Rightarrow> bool" where
  \<comment> \<open>the idle timer fires, and does so before the overall timer\<close>
  "before_timeout idleTimer timeout =
     (case idleTimer of
        Cleared \<Rightarrow> False | First due \<Rightarrow> due \<le> timeout | Later due \<Rightarrow> due < timeout)"

fun idle_loop :: "nat \<Rightarrow> nat \<Rightarrow> idle_timer \<Rightarrow> (nat \<times> net_event) list \<Rightarrow> string + unit" where
  "idle_loop timeout idleTime idleTimer [] =
     (if before_timeout idleTimer timeout then Inr () else Inl ''Network idle timeout'')"
| "idle_loop timeout idleTime idleTimer ((t, ev) # rest) =
     (if fires_by idleTimer t \<and> before_timeout idleTimer timeout then Inr ()
      else if timeout \<le> t then Inl ''Network idle timeout''
      else (case ev of
              Request \<Rightarrow> idle_loop timeout idleTime Cleared rest
            | Response \<Rightarrow> idle_loop timeout idleTime (Later (t + idleTime)) rest))"

definition waitForNetworkIdle :: "nat \<Rightarrow> nat \<Rightarrow> (nat \<times> net_event) list \<Rightarrow> string + unit" where
  "waitForNetworkIdle timeout idleTime events = idle_loop timeout idleTime (First idleTime) events"

text \<open>
  A page, as far as the metadata and listing phases use it: the network events during
  the wait, and what the two \<^verbatim>\<open>page.evaluate\<close> calls return or throw.
\<close>

record Page =
  network :: "(nat \<times> net_event) list"
  metadata_eval :: "string + NovelMetadata"
  chapters_eval :: "string + ChapterInfo list"

definition safeWaitForLoadState :: "Page \<Rightarrow> string + unit" where
  \<comment> \<open>\<^verbatim>\<open>await this.waitForNetworkIdle(page)\<close>, with the default timeout and idle time\<close>
  "safeWaitForLoadState page = waitForNetworkIdle 30000 500 (network page)"

definition validateData_metadata :: "NovelMetadata \<Rightarrow> bool" where
  "validateData_metadata data = (length (title data) > 0)"

definition validateData_chapters :: "ChapterInfo list \<Rightarrow> bool" where
  "validateData_chapters data =
     (length data > 0 \<and> list_all (\<lambda>ch. ch_id ch \<noteq> [] \<and> ch_title ch \<noteq> [] \<and> ch_url ch \<noteq> []) data)"

definition extractMetadata :: "Page \<Rightarrow> string + NovelMetadata" where
  "extractMetadata page =
     (case safeWaitForLoadState page of
        Inl err \<Rightarrow> Inl (''Metadata extraction failed: '' @ err)
      | Inr _ \<Rightarrow>
          (case metadata_eval page of
             Inl err \<Rightarrow> Inl (''Metadata extraction failed: '' @ err)
           | Inr md \<Rightarrow>
               if \<not> validateData_metadata md
               then Inl (''Metadata extraction failed: ''
                         @ ''Failed to extract valid metadata - title is required'')
               else Inr md))"

definition extractChapterList :: "Page \<Rightarrow> string + ChapterInfo list" where
  \<comment> \<open>\<^verbatim>\<open>loadAllChapters\<close> clicks and scrolls; what the page then holds is \<open>chapters_eval\<close>\<close>
  "extractChapterList page =
     (case safeWaitForLoadState page of
        Inl err \<Rightarrow> Inl (''Chapter list extraction failed: '' @ err)
      | Inr _ \<Rightarrow>
          (case chapters_eval page of
             Inl err \<Rightarrow> Inl (''Chapter list extraction failed: '' @ err)
           | Inr chs \<Rightarrow>
               if \<not> validateData_chapters chs
               then Inl (''Chapter list extraction failed: ''
                         @ ''Failed to extract valid chapter list'')
               else Inr chs))"

section \<open>Extracting the content of a chapter\<close>

text \<open>
  \<^verbatim>\<open>extractChapterContent\<close> asks the document for the first element matching each of
  nine selectors in turn. Only three kinds of selector occur: a class, an id, and a
  class attribute containing a text. For these a document is the list of its elements
  in document order, each with its \<^verbatim>\<open>id\<close>, its \<^verbatim>\<open>class\<close> attribute and its text.
\<close>

record Element =
  elem_id :: string
  className :: string
  textContent :: string

datatype selector = ClassSel string | IdSel string | ClassContains string

definition isAsciiWhitespace :: "char \<Rightarrow> bool" where
  \<comment> \<open>the white space at which a \<^verbatim>\<open>class\<close> attribute is split: tab, line feed, form
      feed, carriage return, space\<close>
  "isAsciiWhitespace c = (of_char c \<in> {9::nat, 10, 12, 13, 32})"

fun words_acc :: "string \<Rightarrow> string \<Rightarrow> string list" where
  "words_acc cur [] = (if cur = [] then [] else [rev cur])"
| "words_acc cur (c # cs) =
     (if isAsciiWhitespace c then (if cur = [] then words_acc [] cs else rev cur # words_acc [] cs)
      else words_acc (c # cur) cs)"

definition classList :: "Element \<Rightarrow> string list" where
  "classList e = words_acc [] (className e)"

fun contains :: "string \<Rightarrow> string \<Rightarrow> bool" where
  "contains [] sub = (sub = [])"
| "contains (c # cs) sub = (take (length sub) (c # cs) = sub \<or> contains cs sub)"

definition matches :: "selector \<Rightarrow> Element \<Rightarrow> bool" where
  "matches sel e =
     (case sel of
        ClassSel c \<Rightarrow> c \<in> set (classList e)
      | IdSel i \<Rightarrow> elem_id e = i
      | ClassContains sub \<Rightarrow> contains (className e) sub)"

definition querySelector :: "Element list \<Rightarrow> selector \<Rightarrow> Element option" where
  "querySelector doc sel = find (matches sel) doc"

definition contentSelectors :: "selector list" where
  "contentSelectors =
     [ClassSel ''chapter-content'', ClassSel ''content'', ClassSel ''chapter-body'',
      ClassSel ''novel-content'', ClassSel ''reader-content'', ClassSel ''text-content'',
      IdSel ''content'', ClassSel ''post-content'', ClassContains ''content'']"

definition long_enough :: "Element \<Rightarrow> bool" where
  \<comment> \<open>\<^verbatim>\<open>contentContainer.textContent.trim().length > 100\<close>\<close>
  "long_enough e = (length (trim (textContent e)) > 100)"

fun select_container :: "Element list \<Rightarrow> selector list \<Rightarrow> Element option \<Rightarrow> Element option" where
  \<comment> \<open>the \<^verbatim>\<open>for\<close> loop over the selectors: the variable is assigned in every round and
      the loop is left by \<^verbatim>\<open>break\<close> when the element is long enough\<close>
  "select_container doc [] contentContainer = contentContainer"
| "select_container doc (sel # rest) contentContainer =
     (case querySelector doc sel of
        None \<Rightarrow> select_container doc rest None
      | Some e \<Rightarrow> if long_enough e then Some e else select_container doc rest (Some e))"

text \<open>
  What follows the choice of the container (cloning it, removing unwanted elements,
  collecting images, serialising and the adapter's \<^verbatim>\<open>cleanContent\<close>) is not interpreted:
  \<open>serialize\<close> gives the cleaned markup, the image addresses and the word count of a
  container, \<open>cleanContent\<close> is the adapter's function on the markup.
\<close>

definition evaluate_content ::
  "(Element \<Rightarrow> string \<times> string list \<times> nat) \<Rightarrow> Element list \<Rightarrow> string + string \<times> string list \<times> nat" where
  "evaluate_content serialize doc =
     (case select_container doc contentSelectors None of
        None \<Rightarrow> Inl ''Content container not found''
      | Some contentContainer \<Rightarrow> Inr (serialize contentContainer))"

definition validateData_content :: "ChapterContent \<Rightarrow> bool" where
  \<comment> \<open>\<^verbatim>\<open>data && data.info && typeof data.content === 'string'\<close> holds of every record\<close>
  "validateData_content data = True"

definition extractChapterContent ::
  "(string \<Rightarrow> string) \<Rightarrow> (Element \<Rightarrow> string \<times> string list \<times> nat)
     \<Rightarrow> (string \<Rightarrow> string + Element list) \<Rightarrow> ChapterInfo \<Rightarrow> string + ChapterContent" where
  \<comment> \<open>\<open>goto\<close> is the navigation: the document the address leads to, or the error thrown\<close>
  "extractChapterContent cleanContent serialize goto chapterInfo =
     (case goto (ch_url chapterInfo) of
        Inl err \<Rightarrow> Inl (''Content extraction failed: '' @ err)
      | Inr doc \<Rightarrow>
          (case evaluate_content serialize doc of
             Inl err \<Rightarrow> Inl (''Content extraction failed: '' @ err)
           | Inr (html, imgs, n) \<Rightarrow>
               let result = \<lparr> info = chapterInfo, content = cleanContent html,
                              images = imgs, wordCount = n \<rparr>
               in if \<not> validateData_content result
                  then Inl (''Content extraction failed: '' @ ''Extracted content is invalid or empty'')
                  else Inr result))"

section \<open>Example inputs\<close>

text \<open>Concrete configurations, states and pages at which the statements below are evaluated.\<close>

definition example_chapter :: "int \<Rightarrow> string \<Rightarrow> ChapterInfo" where
  "example_chapter i d = \<lparr> ch_index = i, ch_id = d, ch_title = ''Chapter'', ch_url = ''https://mtlbooks.com/novel/chapter'' \<rparr>"

definition example_config :: Config where
  "example_config =
     \<lparr> cfg_url = ''https://mtlbooks.com/novel'', outputDir = ''out'', cfg_range = None,
       concurrency = 2, retries = 3, resume = True, force = False \<rparr>"

definition example_state :: CrawlState where
  "example_state =
     \<lparr> url = ''https://mtlbooks.com/novel'', metadata = None,
       chapters = [example_chapter 1 ''chapter-1'', example_chapter 2 ''chapter-2'',
                   example_chapter 3 ''chapter-3'', example_chapter 4 ''chapter-4'',
                   example_chapter 5 ''chapter-5''],
       lastCompletedIndex = 3,
       completedChapters = [''chapter-1'', ''chapter-3''],
       lastUpdated = DateObject ''2024-05-01T10:00:00.000Z'' \<rparr>"

definition example_fs :: FileSystem where
  "example_fs = \<lparr> files = (\<lambda>p. None), write_fault = (\<lambda>p. None) \<rparr>"

definition fresh_state :: CrawlState where
  "fresh_state = initState example_config ''2024-05-01T10:00:00.000Z''"








definition faulty_fs :: FileSystem where
  "faulty_fs = \<lparr> files = (\<lambda>p. None),
                 write_fault = (\<lambda>p. Some ''ENOSPC: no space left on device, write'') \<rparr>"

definition example_metadata :: NovelMetadata where
  "example_metadata =
     \<lparr> title = ''A Novel'', author = Some ''An Author'', coverUrl = None, synopsis = None,
       tags = None, status = None, totalChapters = 5,
       sourceUrl = ''https://mtlbooks.com/novel'', crawledAt = ''2024-05-01T10:00:00.000Z'' \<rparr>"

definition busy_page :: Page where
  \<comment> \<open>a page that answers one request and then keeps a second one open\<close>
  "busy_page =
     \<lparr> network = [(100, Request), (300, Response), (400, Request)],
       metadata_eval = Inr example_metadata,
       chapters_eval = Inr [example_chapter 1 ''chapter-1''] \<rparr>"

definition skeleton_element :: Element where
  "skeleton_element = \<lparr> elem_id = '''', className = ''content'', textContent = ''Loading...'' \<rparr>"

definition skeleton_page :: "Element list" where
  \<comment> \<open>a page still showing its placeholder: \<^verbatim>\<open><div class="content">Loading...</div>\<close>\<close>
  "skeleton_page = [skeleton_element]"

section \<open>Properties of the range resolver\<close>

lemma split_acc_no_sep:
  "sep \<notin> set s \<Longrightarrow> split_acc sep cur (s @ sep # rest) = (rev cur @ s) # split_acc sep [] rest"
  by (induction s arbitrary: cur) auto

lemma split_open_interval:
  "CHR ''-'' \<notin> set a \<Longrightarrow> split (a @ ''-'') CHR ''-'' = [a, []]"
  using split_acc_no_sep [of "CHR ''-''" a "[]" "[]"] by (simp add: split_def)

text \<open>
  C6, as the code has it: \<^verbatim>\<open>parseRange("0,-1,abc", 10)\<close> is \<open>[1]\<close>, not empty. A token
  without a dash that is out of range or is no number contributes nothing; the token
  \<^verbatim>\<open>-1\<close> contains a dash, so it is read as an interval whose start is left out
  and defaults to one, \<open>1..1\<close>, and contributes the chapter 1.
\<close>

theorem parseRange_malformed:
  "parseRange ''0,-1,abc'' 10 = [1]
   \<and> token_indices ''-1'' 10 = [1]
   \<and> (\<not> includes_char tok CHR ''-''
        \<and> (case parseInt tok of None \<Rightarrow> True | Some n \<Rightarrow> n \<le> 0 \<or> tot < n)
      \<longrightarrow> token_indices tok tot = [])"
proof -
  have a: "parseRange ''0,-1,abc'' 10 = [1]" by code_simp
  have b: "token_indices ''-1'' 10 = [1]" by code_simp
  have c: "\<not> includes_char tok CHR ''-''
        \<and> (case parseInt tok of None \<Rightarrow> True | Some n \<Rightarrow> n \<le> 0 \<or> tot < n)
      \<longrightarrow> token_indices tok tot = []"
    by (auto simp: token_indices_def single_indices_def split: option.splits)
  from a b c show ?thesis by blast
qed

theorem parseRange_malformed_witness:
  "\<not> includes_char ''abc'' CHR ''-''
   \<and> (case parseInt ''abc'' of None \<Rightarrow> True | Some n \<Rightarrow> n \<le> 0 \<or> 10 < n)
   \<and> token_indices ''abc'' 10 = []
   \<and> \<not> includes_char ''0'' CHR ''-''
   \<and> (case parseInt ''0'' of None \<Rightarrow> True | Some n \<Rightarrow> n \<le> 0 \<or> 10 < n)
   \<and> token_indices ''0'' 10 = []"
proof -
  have h1: "\<not> includes_char ''abc'' CHR ''-''" by code_simp
  have h2: "(case parseInt ''abc'' of None \<Rightarrow> True | Some n \<Rightarrow> n \<le> 0 \<or> (10::int) < n)" by code_simp
  have h3: "\<not> includes_char ''0'' CHR ''-''" by code_simp
  have h4: "(case parseInt ''0'' of None \<Rightarrow> True | Some n \<Rightarrow> n \<le> 0 \<or> (10::int) < n)" by code_simp
  from h1 h2 h3 h4 parseRange_malformed [of "''abc''" 10] parseRange_malformed [of "''0''" 10]
  show ?thesis by blast
qed

text \<open>C6 as stated fails: the result for \<^verbatim>\<open>"0,-1,abc"\<close> and ten chapters is not empty.\<close>

theorem parseRange_malformed_counterexample: "parseRange ''0,-1,abc'' 10 \<noteq> []"
  by code_simp

text \<open>
  C7, as the code has it: \<^verbatim>\<open>parseRange("8-", 5)\<close> is empty. An open interval \<^verbatim>\<open>A-\<close>
  runs from \<open>A\<close> (one if \<open>A\<close> is missing, zero or no number) to the total; only the upper
  end of an interval is limited by the total, so an interval that starts above the
  total contributes nothing.
\<close>

theorem parseRange_open_interval:
  "parseRange ''8-'' 5 = []
   \<and> parseRange ''3-'' 5 = [3, 4, 5]
   \<and> parseRange ''3-9'' 5 = [3, 4, 5]
   \<and> (CHR ''-'' \<notin> set a \<longrightarrow>
        span_indices (a @ ''-'') tot
          = [(case parseInt a of None \<Rightarrow> 1 | Some n \<Rightarrow> if n = 0 then 1 else n) .. tot])"
proof -
  have a: "parseRange ''8-'' 5 = []" by code_simp
  have b: "parseRange ''3-'' 5 = [3, 4, 5]" by code_simp
  have c: "parseRange ''3-9'' 5 = [3, 4, 5]" by code_simp
  have d: "CHR ''-'' \<notin> set a \<longrightarrow>
        span_indices (a @ ''-'') tot
          = [(case parseInt a of None \<Rightarrow> 1 | Some n \<Rightarrow> if n = 0 then 1 else n) .. tot]"
    by (simp add: span_indices_def split_open_interval)
  from a b c d show ?thesis by (intro conjI)
qed

theorem parseRange_open_interval_witness:
  "CHR ''-'' \<notin> set ''3'' \<and> span_indices ''3-'' 5 = [3, 4, 5]
   \<and> CHR ''-'' \<notin> set ''8'' \<and> span_indices ''8-'' 5 = []"
proof -
  have h1: "CHR ''-'' \<notin> set ''3''" by simp
  have h2: "CHR ''-'' \<notin> set ''8''" by simp
  have p3: "parseInt ''3'' = Some 3" by code_simp
  have p8: "parseInt ''8'' = Some 8" by code_simp
  have u3: "[3 .. (5::int)] = [3, 4, 5]" by code_simp
  have u8: "[8 .. (5::int)] = []" by simp
  from h1 h2 parseRange_open_interval [of "''3''" 5] parseRange_open_interval [of "''8''" 5] p3 p8 u3 u8
  show ?thesis by simp
qed

text \<open>C7 as stated fails: the result for \<^verbatim>\<open>"8-"\<close> and five chapters is not \<open>[5]\<close>.\<close>

theorem parseRange_open_interval_counterexample: "parseRange ''8-'' 5 \<noteq> [5]"
  by code_simp

section \<open>Properties of the choice of chapters\<close>

lemma upto_1_5: "[1 .. (5::int)] = [1, 2, 3, 4, 5]"
  by code_simp

lemma parseRange_2_4: "parseRange ''2-4'' 5 = [2, 3, 4]"
  by code_simp

lemma chosen_iff:
  "c \<in> set (getChaptersToScrape cfg st) \<longleftrightarrow>
     c \<in> set (chapters st) \<and> ch_index c \<in> set (targetIndexes cfg st)
     \<and> (force cfg \<or> ch_id c \<notin> set (completedChapters st))"
  by (auto simp: getChaptersToScrape_def array_includes_def)

lemma five_chapters:
  assumes "chapters st = [c1, c2, c3, c4, c5]" and "map ch_index (chapters st) = [1, 2, 3, 4, 5]"
    and "distinct (map ch_id (chapters st))"
    and "set (completedChapters st) = {ch_id c1, ch_id c3}"
  shows "ch_index c1 = 1" "ch_index c2 = 2" "ch_index c3 = 3" "ch_index c4 = 4" "ch_index c5 = 5"
    "ch_id c2 \<noteq> ch_id c1" "ch_id c2 \<noteq> ch_id c3" "ch_id c4 \<noteq> ch_id c1"
    "ch_id c4 \<noteq> ch_id c3" "ch_id c5 \<noteq> ch_id c1" "ch_id c5 \<noteq> ch_id c3"
  using assms by auto

text \<open>
  C1: a chapter of the state is chosen exactly when its index lies in the resolved range
  and the force flag is set or its id is not among the completed chapters. The resolved
  range is what \<^verbatim>\<open>parseRange\<close> makes of the configured range expression and the number
  of chapters, and \<open>1 .. n\<close> for \<open>n\<close> chapters when no expression is configured. For five
  chapters \<open>c1 .. c5\<close> with the indexes 1 to 5 and the completed set \<open>{c1, c3}\<close>: with no
  range configured the choice is \<open>c2, c4, c5\<close> without the force flag and all five
  chapters with it; with the range \<^verbatim>\<open>2-4\<close> it is \<open>c2, c4\<close> without the force flag and
  \<open>c2, c3, c4\<close> with it.
\<close>

theorem getChaptersToScrape_resume:
  "(cfg_range cfg = Some r \<and> r \<noteq> [] \<longrightarrow>
      (c \<in> set (getChaptersToScrape cfg st) \<longleftrightarrow>
         c \<in> set (chapters st)
         \<and> ch_index c \<in> set (parseRange r (int (length (chapters st))))
         \<and> (force cfg \<or> ch_id c \<notin> set (completedChapters st))))
   \<and> (cfg_range cfg = None \<or> cfg_range cfg = Some [] \<longrightarrow>
      (c \<in> set (getChaptersToScrape cfg st) \<longleftrightarrow>
         c \<in> set (chapters st)
         \<and> 1 \<le> ch_index c \<and> ch_index c \<le> int (length (chapters st))
         \<and> (force cfg \<or> ch_id c \<notin> set (completedChapters st))))
   \<and> (chapters st = [c1, c2, c3, c4, c5] \<and> map ch_index (chapters st) = [1, 2, 3, 4, 5]
        \<and> distinct (map ch_id (chapters st))
        \<and> set (completedChapters st) = {ch_id c1, ch_id c3} \<and> cfg_range cfg = None
      \<longrightarrow> getChaptersToScrape cfg st = (if force cfg then [c1, c2, c3, c4, c5] else [c2, c4, c5]))
   \<and> (chapters st = [c1, c2, c3, c4, c5] \<and> map ch_index (chapters st) = [1, 2, 3, 4, 5]
        \<and> distinct (map ch_id (chapters st))
        \<and> set (completedChapters st) = {ch_id c1, ch_id c3} \<and> cfg_range cfg = Some ''2-4''
      \<longrightarrow> getChaptersToScrape cfg st = (if force cfg then [c2, c3, c4] else [c2, c4]))"
proof (intro conjI impI)
  assume "cfg_range cfg = Some r \<and> r \<noteq> []"
  then have "targetIndexes cfg st = parseRange r (int (length (chapters st)))"
    by (simp add: targetIndexes_def)
  then show "c \<in> set (getChaptersToScrape cfg st) \<longleftrightarrow>
         c \<in> set (chapters st)
         \<and> ch_index c \<in> set (parseRange r (int (length (chapters st))))
         \<and> (force cfg \<or> ch_id c \<notin> set (completedChapters st))"
    by (simp add: chosen_iff)
next
  assume "cfg_range cfg = None \<or> cfg_range cfg = Some []"
  then have "targetIndexes cfg st = [1 .. int (length (chapters st))]"
    by (auto simp: targetIndexes_def)
  then show "c \<in> set (getChaptersToScrape cfg st) \<longleftrightarrow>
         c \<in> set (chapters st)
         \<and> 1 \<le> ch_index c \<and> ch_index c \<le> int (length (chapters st))
         \<and> (force cfg \<or> ch_id c \<notin> set (completedChapters st))"
    by (simp add: chosen_iff)
next
  assume h: "chapters st = [c1, c2, c3, c4, c5] \<and> map ch_index (chapters st) = [1, 2, 3, 4, 5]
        \<and> distinct (map ch_id (chapters st))
        \<and> set (completedChapters st) = {ch_id c1, ch_id c3} \<and> cfg_range cfg = None"
  then have t: "targetIndexes cfg st = [1, 2, 3, 4, 5]"
    by (simp add: targetIndexes_def upto_1_5)
  from h have c: "chapters st = [c1, c2, c3, c4, c5]"
    "set (completedChapters st) = {ch_id c1, ch_id c3}"
    and i: "map ch_index (chapters st) = [1, 2, 3, 4, 5]"
    and d: "distinct (map ch_id (chapters st))"
    by blast+
  note f = five_chapters [OF c(1) i d c(2)]
  show "getChaptersToScrape cfg st = (if force cfg then [c1, c2, c3, c4, c5] else [c2, c4, c5])"
    using c t f by (simp add: getChaptersToScrape_def array_includes_def)
next
  assume h: "chapters st = [c1, c2, c3, c4, c5] \<and> map ch_index (chapters st) = [1, 2, 3, 4, 5]
        \<and> distinct (map ch_id (chapters st))
        \<and> set (completedChapters st) = {ch_id c1, ch_id c3} \<and> cfg_range cfg = Some ''2-4''"
  then have t: "targetIndexes cfg st = [2, 3, 4]"
    by (simp add: targetIndexes_def parseRange_2_4)
  from h have c: "chapters st = [c1, c2, c3, c4, c5]"
    "set (completedChapters st) = {ch_id c1, ch_id c3}"
    and i: "map ch_index (chapters st) = [1, 2, 3, 4, 5]"
    and d: "distinct (map ch_id (chapters st))"
    by blast+
  note f = five_chapters [OF c(1) i d c(2)]
  show "getChaptersToScrape cfg st = (if force cfg then [c2, c3, c4] else [c2, c4])"
    using c t f by (simp add: getChaptersToScrape_def array_includes_def)
qed

theorem getChaptersToScrape_resume_witness:
  "chapters example_state = [example_chapter 1 ''chapter-1'', example_chapter 2 ''chapter-2'',
                   example_chapter 3 ''chapter-3'', example_chapter 4 ''chapter-4'',
                   example_chapter 5 ''chapter-5'']
   \<and> map ch_index (chapters example_state) = [1, 2, 3, 4, 5]
   \<and> distinct (map ch_id (chapters example_state))
   \<and> set (completedChapters example_state) = {''chapter-1'', ''chapter-3''}
   \<and> cfg_range example_config = None
   \<and> getChaptersToScrape example_config example_state
       = [example_chapter 2 ''chapter-2'', example_chapter 4 ''chapter-4'', example_chapter 5 ''chapter-5'']
   \<and> getChaptersToScrape (example_config\<lparr> force := True \<rparr>) example_state = chapters example_state
   \<and> cfg_range (example_config\<lparr> cfg_range := Some ''2-4'' \<rparr>) = Some ''2-4''
   \<and> getChaptersToScrape (example_config\<lparr> cfg_range := Some ''2-4'' \<rparr>) example_state
       = [example_chapter 2 ''chapter-2'', example_chapter 4 ''chapter-4'']
   \<and> getChaptersToScrape (example_config\<lparr> cfg_range := Some ''2-4'', force := True \<rparr>) example_state
       = [example_chapter 2 ''chapter-2'', example_chapter 3 ''chapter-3'', example_chapter 4 ''chapter-4'']
   \<and> example_chapter 3 ''chapter-3''
       \<in> set (getChaptersToScrape (example_config\<lparr> cfg_range := Some ''3'', force := True \<rparr>) example_state)
   \<and> example_chapter 4 ''chapter-4''
       \<notin> set (getChaptersToScrape (example_config\<lparr> cfg_range := Some ''3'', force := True \<rparr>) example_state)"
proof -
  let ?c1 = "example_chapter 1 ''chapter-1''" and ?c2 = "example_chapter 2 ''chapter-2''"
    and ?c3 = "example_chapter 3 ''chapter-3''" and ?c4 = "example_chapter 4 ''chapter-4''"
    and ?c5 = "example_chapter 5 ''chapter-5''"
  let ?ranged = "example_config\<lparr> cfg_range := Some ''2-4'' \<rparr>"
  let ?forced = "example_config\<lparr> cfg_range := Some ''2-4'', force := True \<rparr>"
  let ?single = "example_config\<lparr> cfg_range := Some ''3'', force := True \<rparr>"
  have h1: "chapters example_state = [?c1, ?c2, ?c3, ?c4, ?c5]"
    by (simp add: example_state_def)
  have h2: "map ch_index (chapters example_state) = [1, 2, 3, 4, 5]"
    by (simp add: example_state_def example_chapter_def)
  have h3: "distinct (map ch_id (chapters example_state))"
    by (simp add: example_state_def example_chapter_def)
  have h4: "set (completedChapters example_state) = {ch_id ?c1, ch_id ?c3}"
    by (simp add: example_state_def example_chapter_def)
  have h5: "cfg_range example_config = None" "cfg_range (example_config\<lparr> force := True \<rparr>) = None"
    by (simp_all add: example_config_def)
  have h6: "cfg_range ?ranged = Some ''2-4''" "cfg_range ?forced = Some ''2-4''"
    by simp_all
  have f: "\<not> force example_config" "force (example_config\<lparr> force := True \<rparr>)"
    "\<not> force ?ranged" "force ?forced"
    by (simp_all add: example_config_def)
  note a = getChaptersToScrape_resume [of example_config _ _ example_state ?c1 ?c2 ?c3 ?c4 ?c5]
  note b = getChaptersToScrape_resume [of "example_config\<lparr> force := True \<rparr>" _ _ example_state
      ?c1 ?c2 ?c3 ?c4 ?c5]
  note c = getChaptersToScrape_resume [of ?ranged _ _ example_state ?c1 ?c2 ?c3 ?c4 ?c5]
  note d = getChaptersToScrape_resume [of ?forced _ _ example_state ?c1 ?c2 ?c3 ?c4 ?c5]
  have r1: "getChaptersToScrape example_config example_state = [?c2, ?c4, ?c5]"
    using mp [OF conjunct1 [OF conjunct2 [OF conjunct2 [OF a]]]
                 conjI [OF h1 conjI [OF h2 conjI [OF h3 conjI [OF h4 h5(1)]]]]] f(1)
    by simp
  have r2: "getChaptersToScrape (example_config\<lparr> force := True \<rparr>) example_state = chapters example_state"
    using mp [OF conjunct1 [OF conjunct2 [OF conjunct2 [OF b]]]
                 conjI [OF h1 conjI [OF h2 conjI [OF h3 conjI [OF h4 h5(2)]]]]] f(2) h1
    by simp
  have r3: "getChaptersToScrape ?ranged example_state = [?c2, ?c4]"
    using mp [OF conjunct2 [OF conjunct2 [OF conjunct2 [OF c]]]
                 conjI [OF h1 conjI [OF h2 conjI [OF h3 conjI [OF h4 h6(1)]]]]] f(3)
    by simp
  have r4: "getChaptersToScrape ?forced example_state = [?c2, ?c3, ?c4]"
    using mp [OF conjunct2 [OF conjunct2 [OF conjunct2 [OF d]]]
                 conjI [OF h1 conjI [OF h2 conjI [OF h3 conjI [OF h4 h6(2)]]]]] f(4)
    by simp
  have p: "parseRange ''3'' (int (length (chapters example_state))) = [3]"
    unfolding h1 by code_simp
  have s: "cfg_range ?single = Some ''3'' \<and> ''3'' \<noteq> []" by simp
  have m3: "?c3 \<in> set (getChaptersToScrape ?single example_state)"
    using mp [OF conjunct1 [OF getChaptersToScrape_resume [of ?single "''3''" ?c3 example_state]] s] p
    by (simp add: h1 example_chapter_def)
  have m4: "?c4 \<notin> set (getChaptersToScrape ?single example_state)"
    using mp [OF conjunct1 [OF getChaptersToScrape_resume [of ?single "''3''" ?c4 example_state]] s] p
    by (simp add: h1 example_chapter_def)
  have h4': "set (completedChapters example_state) = {''chapter-1'', ''chapter-3''}"
    by (simp add: example_state_def)
  show ?thesis
    by (intro conjI) (rule h1 h2 h3 h4' h5(1) r1 r2 h6(1) r3 r4 m3 m4)+
qed

section \<open>Properties of the checkpoint\<close>

lemma sequence_map:
  "(\<And>x. x \<in> set xs \<Longrightarrow> dec (enc x) = Some x) \<Longrightarrow> sequence (map dec (map enc xs)) = Some xs"
  by (induction xs) auto

lemma as_list_strings: "as_list as_string (JArray (map JString xs)) = Some xs"
  using sequence_map [of xs as_string JString] by (simp add: as_list_def as_string_def)

lemma chapter_roundtrip: "chapter_of_json (json_of_chapter c) = Some c"
  by (simp add: chapter_of_json_def json_of_chapter_def required_def get_field_def
      as_number_def as_string_def)

lemma as_list_chapters: "as_list chapter_of_json (JArray (map json_of_chapter cs)) = Some cs"
  using sequence_map [of cs chapter_of_json json_of_chapter]
  by (simp add: as_list_def chapter_roundtrip)

lemma metadata_roundtrip: "metadata_of_json (json_of_metadata m) = Some m"
  by (cases "author m"; cases "coverUrl m"; cases "synopsis m"; cases "tags m"; cases "status m")
     (simp_all add: metadata_of_json_def json_of_metadata_def required_def optional_def
        get_field_def opt_field_def as_number_def as_string_def as_list_strings)

lemma metadata_not_null: "json_of_metadata m \<noteq> JNull"
  by (simp add: json_of_metadata_def)

lemma parse_stringify:
  "read_state (JSON_stringify st)
     = Some (st\<lparr> lastUpdated := (case lastUpdated st of DateObject t \<Rightarrow> DateString t
                                                        | DateString s \<Rightarrow> DateString s) \<rparr>)"
proof -
  let ?j = "JSON_stringify st"
  have u: "required ''url'' as_string ?j = Some (url st)"
    by (simp add: JSON_stringify_def required_def get_field_def as_string_def)
  have c: "required ''chapters'' (as_list chapter_of_json) ?j = Some (chapters st)"
    by (simp add: JSON_stringify_def required_def get_field_def as_list_chapters)
  have l: "required ''lastCompletedIndex'' as_number ?j = Some (lastCompletedIndex st)"
    by (simp add: JSON_stringify_def required_def get_field_def as_number_def)
  have d: "optional ''completedChapters'' (as_list as_string) ?j = Some (Some (completedChapters st))"
    by (simp add: JSON_stringify_def optional_def get_field_def as_list_strings)
  have t: "required ''lastUpdated'' as_string ?j
           = Some (case lastUpdated st of DateObject t \<Rightarrow> t | DateString s \<Rightarrow> s)"
    by (simp add: JSON_stringify_def required_def get_field_def as_string_def json_of_timestamp_def
        split: timestamp.splits)
  have m: "(case get_field ''metadata'' ?j of
               None \<Rightarrow> Some None
             | Some JNull \<Rightarrow> Some None
             | Some m \<Rightarrow> (case metadata_of_json m of None \<Rightarrow> None | Some x \<Rightarrow> Some (Some x)))
           = Some (metadata st)"
  proof (cases "metadata st")
    case None
    then show ?thesis by (simp add: JSON_stringify_def get_field_def)
  next
    case (Some md)
    have "get_field ''metadata'' ?j = Some (json_of_metadata md)"
      using Some by (simp add: JSON_stringify_def get_field_def)
    then show ?thesis
      using Some metadata_not_null [of md] metadata_roundtrip [of md]
      by (cases "json_of_metadata md") simp_all
  qed
  show ?thesis
    unfolding read_state_def u c l d t m
    by (cases "lastUpdated st") simp_all
qed


lemma stringify_is_object: "\<exists>kvs. JSON_stringify st = JObject kvs"
  by (simp add: JSON_stringify_def)

lemma load_after_write:
  assumes "resume cfg"
    and "files fs' (path_join (outputDir cfg) ''state.json'') = Some (Json (JSON_stringify st))"
  shows "loadState cfg now fs'
     = Typed (st\<lparr> lastUpdated := (case lastUpdated st of DateObject t \<Rightarrow> DateString t
                                                          | DateString s \<Rightarrow> DateString s) \<rparr>)"
proof -
  obtain kvs where "JSON_stringify st = JObject kvs"
    using stringify_is_object by blast
  with assms parse_stringify [of st] show ?thesis
    by (simp add: loadState_def fileExists_def readFile_def)
qed

lemma saveState_files:
  "saveState cfg st fs = Inr fs' \<Longrightarrow>
   files fs' (path_join (outputDir cfg) ''state.json'') = Some (Json (JSON_stringify st))"
  by (auto simp: saveState_def writeFile_def Let_def split: option.splits)

lemma save_then_load:
  assumes "resume cfg" and "saveState cfg st fs = Inr fs'"
  shows "loadState cfg now fs'
     = Typed (st\<lparr> lastUpdated := (case lastUpdated st of DateObject t \<Rightarrow> DateString t
                                                          | DateString s \<Rightarrow> DateString s) \<rparr>)"
  using assms(1) saveState_files [OF assms(2)] by (rule load_after_write)

text \<open>
  C2 at a fresh state: its \<open>lastUpdated\<close> is the date that \<^verbatim>\<open>initState\<close> takes from the
  clock. Saving writes the date as a string and loading does not turn it back, so the
  state loaded after saving has a string in that field and is not the state that was
  saved. Every other field comes back as it was (\<open>save_then_load\<close>).
\<close>

theorem save_load_lastUpdated:
  "saveState example_config fresh_state example_fs
      = Inr (example_fs\<lparr> files := (files example_fs)(''out/state.json'' \<mapsto>
                                      Json (JSON_stringify fresh_state)) \<rparr>)
   \<and> lastUpdated fresh_state = DateObject ''2024-05-01T10:00:00.000Z''
   \<and> loadState example_config ''2024-06-01T00:00:00.000Z''
        (example_fs\<lparr> files := (files example_fs)(''out/state.json'' \<mapsto>
                                      Json (JSON_stringify fresh_state)) \<rparr>)
      = Typed (fresh_state\<lparr> lastUpdated := DateString ''2024-05-01T10:00:00.000Z'' \<rparr>)
   \<and> loadState example_config ''2024-06-01T00:00:00.000Z''
        (example_fs\<lparr> files := (files example_fs)(''out/state.json'' \<mapsto>
                                      Json (JSON_stringify fresh_state)) \<rparr>)
      \<noteq> Typed fresh_state"
proof -
  let ?fs = "example_fs\<lparr> files := (files example_fs)(''out/state.json'' \<mapsto>
                                      Json (JSON_stringify fresh_state)) \<rparr>"
  have s: "saveState example_config fresh_state example_fs = Inr ?fs"
    by (simp add: saveState_def writeFile_def Let_def example_fs_def example_config_def path_join_def)
  have d: "lastUpdated fresh_state = DateObject ''2024-05-01T10:00:00.000Z''"
    by (simp add: fresh_state_def initState_def)
  have r: "resume example_config" by (simp add: example_config_def)
  have l: "loadState example_config ''2024-06-01T00:00:00.000Z'' ?fs
           = Typed (fresh_state\<lparr> lastUpdated := DateString ''2024-05-01T10:00:00.000Z'' \<rparr>)"
    using save_then_load [OF r s, of "''2024-06-01T00:00:00.000Z''"] d by simp
  have n: "loadState example_config ''2024-06-01T00:00:00.000Z'' ?fs \<noteq> Typed fresh_state"
  proof
    assume "loadState example_config ''2024-06-01T00:00:00.000Z'' ?fs = Typed fresh_state"
    with l have "fresh_state\<lparr> lastUpdated := DateString ''2024-05-01T10:00:00.000Z'' \<rparr> = fresh_state"
      by simp
    then have "lastUpdated (fresh_state\<lparr> lastUpdated := DateString ''2024-05-01T10:00:00.000Z'' \<rparr>)
               = lastUpdated fresh_state"
      by simp
    with d show False by simp
  qed
  show ?thesis by (intro conjI) (rule s d l n)+
qed

section \<open>Properties of the scraping tasks\<close>

lemma commit_completed:
  "set (completedChapters (commit c now st)) = insert (ch_id c) (set (completedChapters st))"
  by (auto simp: commit_def array_includes_def)

lemma commit_distinct:
  "distinct (completedChapters st) \<Longrightarrow> distinct (completedChapters (commit c now st))"
  by (simp add: commit_def array_includes_def)

lemma writeFile_keeps_faults: "writeFile fs p d = Inr fs' \<Longrightarrow> write_fault fs' = write_fault fs"
  by (auto simp: writeFile_def split: option.splits)

lemma saveState_keeps_faults: "saveState cfg st fs = Inr fs' \<Longrightarrow> write_fault fs' = write_fault fs"
  by (simp add: saveState_def Let_def writeFile_keeps_faults)


lemma saveState_with_fault:
  "write_fault fs (path_join (outputDir cfg) ''state.json'') = Some err \<Longrightarrow>
   saveState cfg st fs = Inl err"
  by (simp add: saveState_def Let_def writeFile_def)

lemma attempt_keeps_faults:
  "attempt cfg ch env w = (r, w') \<Longrightarrow> write_fault (snd w') = write_fault (snd w)"
  by (auto simp: attempt_def Let_def saveState_keeps_faults
      split: option.splits sum.splits if_splits prod.splits)

lemma attempt_completed_grows:
  "attempt cfg ch env w = (r, w') \<Longrightarrow>
   set (completedChapters (fst w)) \<subseteq> set (completedChapters (fst w'))"
  by (auto simp: attempt_def Let_def commit_completed
      split: option.splits sum.splits if_splits prod.splits)

lemma attempt_distinct:
  "attempt cfg ch env w = (r, w') \<Longrightarrow> distinct (completedChapters (fst w)) \<Longrightarrow>
   distinct (completedChapters (fst w'))"
  by (auto simp: attempt_def Let_def commit_distinct
      split: option.splits sum.splits if_splits prod.splits)






lemma pRetry_invariant:
  assumes step: "\<And>k w r w'. fn k w = (r, w') \<Longrightarrow> Q w \<Longrightarrow> Q w'"
  shows "pRetry isNetworkError n fn k errs w = (r, w') \<Longrightarrow> Q w \<Longrightarrow> Q w'"
proof (induction n arbitrary: k errs w)
  case 0
  obtain r1 w1 where f: "fn k w = (r1, w1)" by (cases "fn k w")
  with 0(2) have q: "Q w1" using step by blast
  from f 0(1) have "w' = w1"
    by (auto split: sum.splits verdict.splits option.splits)
  with q show ?case by simp
next
  case (Suc n)
  obtain r1 w1 where f: "fn k w = (r1, w1)" by (cases "fn k w")
  with Suc.prems(2) have q: "Q w1" using step by blast
  show ?case
  proof (cases r1)
    case (Inr x)
    with f Suc.prems(1) have "w' = w1" by simp
    with q show ?thesis by simp
  next
    case (Inl e)
    show ?thesis
    proof (cases "on_failed_attempt isNetworkError e")
      case (Reject e')
      with Inl f Suc.prems(1) have "w' = w1" by simp
      with q show ?thesis by simp
    next
      case (Retry e')
      with Inl f Suc.prems(1)
      have "pRetry isNetworkError n fn (Suc k) (errs @ [e']) w1 = (r, w')" by simp
      with q show ?thesis using Suc.IH by blast
    qed
  qed
qed

lemma scrapeChapter_keeps_faults:
  assumes "scrapeChapter isNetworkError cfg envs ch w = (r, w')"
  shows "write_fault (snd w') = write_fault (snd w)"
proof -
  let ?Q = "\<lambda>v. write_fault (snd v) = write_fault (snd w)"
  from assms
  have run: "pRetry isNetworkError (retries cfg) (\<lambda>k. attempt cfg ch (envs k)) 0 [] w = (r, w')"
    by (simp add: scrapeChapter_def retryWithBackoff_def)
  have "?Q w'"
  proof (rule pRetry_invariant [where Q = ?Q, OF _ run])
    fix k v r v'
    assume "attempt cfg ch (envs k) v = (r, v')" and "?Q v"
    then show "?Q v'" using attempt_keeps_faults [of cfg ch "envs k" v r v'] by simp
  qed simp
  then show ?thesis .
qed

lemma scrapeChapter_completed_grows:
  assumes "scrapeChapter isNetworkError cfg envs ch w = (r, w')"
  shows "set (completedChapters (fst w)) \<subseteq> set (completedChapters (fst w'))"
proof -
  let ?Q = "\<lambda>v. set (completedChapters (fst w)) \<subseteq> set (completedChapters (fst v))"
  from assms
  have run: "pRetry isNetworkError (retries cfg) (\<lambda>k. attempt cfg ch (envs k)) 0 [] w = (r, w')"
    by (simp add: scrapeChapter_def retryWithBackoff_def)
  have "?Q w'"
  proof (rule pRetry_invariant [where Q = ?Q, OF _ run])
    fix k v r v'
    assume "attempt cfg ch (envs k) v = (r, v')" and "?Q v"
    then show "?Q v'" using attempt_completed_grows [of cfg ch "envs k" v r v'] by blast
  qed simp
  then show ?thesis .
qed

lemma scrapeChapter_distinct:
  assumes "scrapeChapter isNetworkError cfg envs ch w = (r, w')"
    and "distinct (completedChapters (fst w))"
  shows "distinct (completedChapters (fst w'))"
proof -
  let ?Q = "\<lambda>v. distinct (completedChapters (fst v))"
  from assms
  have run: "pRetry isNetworkError (retries cfg) (\<lambda>k. attempt cfg ch (envs k)) 0 [] w = (r, w')"
    by (simp add: scrapeChapter_def retryWithBackoff_def)
  show "?Q w'"
  proof (rule pRetry_invariant [where Q = ?Q, OF _ run])
    fix k v r v'
    assume "attempt cfg ch (envs k) v = (r, v')" and "?Q v"
    then show "?Q v'" by (rule attempt_distinct)
  qed (rule assms(2))
qed







lemma task_unfold:
  assumes "task isNetworkError cfg envs ch w = (r, w')"
  obtains r1 where "scrapeChapter isNetworkError cfg envs ch (fst w) = (r1, fst w')"
    and "case r1 of Inr c \<Rightarrow> r = Undefined \<and> snd w' = increment (snd w)
                  | Inl e \<Rightarrow> r = Failed ch e \<and> snd w' = addError (snd w)"
proof -
  obtain r1 w1 where s: "scrapeChapter isNetworkError cfg envs ch (fst w) = (r1, w1)"
    by (cases "scrapeChapter isNetworkError cfg envs ch (fst w)")
  with assms have "fst w' = w1"
    by (cases r1) (auto simp: task_def)
  moreover from s assms
  have "case r1 of Inr c \<Rightarrow> r = Undefined \<and> snd w' = increment (snd w)
                 | Inl e \<Rightarrow> r = Failed ch e \<and> snd w' = addError (snd w)"
    by (cases r1) (auto simp: task_def)
  ultimately show thesis using s that by simp
qed

lemma task_counts:
  assumes "task isNetworkError cfg envs ch w = (r, w')"
  shows "current (snd w') = current (snd w) + (if r = Undefined then 1 else 0)
   \<and> errors (snd w') = errors (snd w) + (if is_failed r then 1 else 0)
   \<and> (r = Undefined) = (\<not> is_failed r)"
proof -
  from assms obtain r1 where "scrapeChapter isNetworkError cfg envs ch (fst w) = (r1, fst w')"
    and "case r1 of Inr c \<Rightarrow> r = Undefined \<and> snd w' = increment (snd w)
                  | Inl e \<Rightarrow> r = Failed ch e \<and> snd w' = addError (snd w)"
    by (rule task_unfold)
  then show ?thesis
    by (cases r1) (simp_all add: increment_def addError_def is_failed_def)
qed

lemma task_keeps_faults:
  assumes "task isNetworkError cfg envs ch w = (r, w')"
  shows "write_fault (snd (fst w')) = write_fault (snd (fst w))"
proof -
  from assms obtain r1 where "scrapeChapter isNetworkError cfg envs ch (fst w) = (r1, fst w')"
    by (rule task_unfold [where thesis = thesis])
  then show ?thesis by (rule scrapeChapter_keeps_faults)
qed

lemma task_completed_grows:
  assumes "task isNetworkError cfg envs ch w = (r, w')"
  shows "set (completedChapters (fst (fst w))) \<subseteq> set (completedChapters (fst (fst w')))"
proof -
  from assms obtain r1 where "scrapeChapter isNetworkError cfg envs ch (fst w) = (r1, fst w')"
    by (rule task_unfold [where thesis = thesis])
  then show ?thesis by (rule scrapeChapter_completed_grows)
qed

lemma task_distinct:
  assumes "task isNetworkError cfg envs ch w = (r, w')" and "distinct (completedChapters (fst (fst w)))"
  shows "distinct (completedChapters (fst (fst w')))"
proof -
  from assms(1) obtain r1 where "scrapeChapter isNetworkError cfg envs ch (fst w) = (r1, fst w')"
    by (rule task_unfold [where thesis = thesis])
  then show ?thesis using assms(2) by (rule scrapeChapter_distinct)
qed


lemma run_tasks_Cons:
  assumes "run_tasks isNetworkError cfg envs off (ch # chs) w = (rs, w')"
  obtains r w1 rs1 where "task isNetworkError cfg (envs off) ch w = (r, w1)"
    and "run_tasks isNetworkError cfg envs (Suc off) chs w1 = (rs1, w')" and "rs = r # rs1"
proof -
  obtain r w1 where t: "task isNetworkError cfg (envs off) ch w = (r, w1)"
    by (cases "task isNetworkError cfg (envs off) ch w")
  obtain rs1 w2 where u: "run_tasks isNetworkError cfg envs (Suc off) chs w1 = (rs1, w2)"
    by (cases "run_tasks isNetworkError cfg envs (Suc off) chs w1")
  from assms t u have "rs = r # rs1" "w' = w2" by simp_all
  with t u that show thesis by blast
qed

lemma run_tasks_general:
  assumes "run_tasks isNetworkError cfg envs off chs w = (rs, w')"
  shows "length rs = length chs
    \<and> current (snd w') = current (snd w) + length (filter (\<lambda>r. r = Undefined) rs)
    \<and> errors (snd w') = errors (snd w) + length (filter is_failed rs)
    \<and> length (filter (\<lambda>r. r = Undefined) rs) + length (filter is_failed rs) = length chs
    \<and> write_fault (snd (fst w')) = write_fault (snd (fst w))
    \<and> set (completedChapters (fst (fst w))) \<subseteq> set (completedChapters (fst (fst w')))
    \<and> (distinct (completedChapters (fst (fst w))) \<longrightarrow> distinct (completedChapters (fst (fst w'))))"
  using assms
proof (induction chs arbitrary: off w rs)
  case Nil
  then show ?case by simp
next
  case (Cons ch chs)
  from Cons.prems obtain r w1 rs1 where t: "task isNetworkError cfg (envs off) ch w = (r, w1)"
    and u: "run_tasks isNetworkError cfg envs (Suc off) chs w1 = (rs1, w')" and rs: "rs = r # rs1"
    by (rule run_tasks_Cons)
  note ih = Cons.IH [OF u]
  note c = task_counts [OF t] and f = task_keeps_faults [OF t]
    and g = task_completed_grows [OF t] and d = task_distinct [OF t]
  show ?case
  proof (intro conjI impI)
    show "length rs = length (ch # chs)" using ih rs by simp
    show "current (snd w') = current (snd w) + length (filter (\<lambda>r. r = Undefined) rs)"
      using ih c rs by simp
    show "errors (snd w') = errors (snd w) + length (filter is_failed rs)"
      using ih c rs by simp
    show "length (filter (\<lambda>r. r = Undefined) rs) + length (filter is_failed rs) = length (ch # chs)"
      using ih c rs by simp
    show "write_fault (snd (fst w')) = write_fault (snd (fst w))" using ih f by simp
    show "set (completedChapters (fst (fst w))) \<subseteq> set (completedChapters (fst (fst w')))"
      using ih g by blast
    show "distinct (completedChapters (fst (fst w')))" if "distinct (completedChapters (fst (fst w)))"
      using ih d that by blast
  qed
qed


lemma scrapeChapters_unfold:
  "scrapeChapters isNetworkError cfg envs chs w = ((rs, sm), w') \<Longrightarrow>
   run_tasks isNetworkError cfg envs 0 chs w = (rs, w')"
  by (auto simp: scrapeChapters_def split: prod.splits)


lemma summary_successful_zero:
  "successful (snd (fst (scrapeChapters isNetworkError cfg envs chs w))) = 0"
  by (auto simp: scrapeChapters_def is_failed_def split: prod.splits task_result.splits)

lemma commits_distinct:
  "distinct (completedChapters st) \<Longrightarrow>
   distinct (completedChapters (foldl (\<lambda>s (chapterInfo, now). commit chapterInfo now s) st commits))"
  by (induction commits arbitrary: st) (auto simp: commit_distinct)

lemma scrapeChapters_distinct:
  assumes "distinct (completedChapters st)"
  shows "distinct (completedChapters (fst (fst (snd
           (scrapeChapters isNetworkError cfg envs chs ((st, fs), p))))))"
proof -
  obtain rs sm w' where r: "scrapeChapters isNetworkError cfg envs chs ((st, fs), p) = ((rs, sm), w')"
    by (cases "scrapeChapters isNetworkError cfg envs chs ((st, fs), p)") auto
  then have "run_tasks isNetworkError cfg envs 0 chs ((st, fs), p) = (rs, w')"
    by (rule scrapeChapters_unfold)
  from run_tasks_general [OF this] assms have "distinct (completedChapters (fst (fst w')))"
    by simp
  with r show ?thesis by simp
qed



text \<open>
  C10: the list of completed chapters is without repetition in the fresh state, after any
  sequence of commits from it, and after any run of \<^verbatim>\<open>scrapeChapters\<close> that starts from
  a fresh state to which the metadata and the chapter list have been added.
\<close>

theorem completedChapters_distinct:
  "distinct (completedChapters (initState cfg t0))
   \<and> distinct (completedChapters
        (foldl (\<lambda>s (chapterInfo, now). commit chapterInfo now s) (initState cfg t0) commits))
   \<and> distinct (completedChapters (fst (fst (snd
        (scrapeChapters isNetworkError cfg envs chs
           (((initState cfg t0)\<lparr> metadata := md, chapters := cl \<rparr>, fs), p))))))"
proof -
  have i: "distinct (completedChapters (initState cfg t0))"
    by (simp add: initState_def)
  then have c: "distinct (completedChapters
        (foldl (\<lambda>s (chapterInfo, now). commit chapterInfo now s) (initState cfg t0) commits))"
    by (rule commits_distinct)
  have "distinct (completedChapters ((initState cfg t0)\<lparr> metadata := md, chapters := cl \<rparr>))"
    by (simp add: initState_def)
  then have s: "distinct (completedChapters (fst (fst (snd
        (scrapeChapters isNetworkError cfg envs chs
           (((initState cfg t0)\<lparr> metadata := md, chapters := cl \<rparr>, fs), p))))))"
    by (rule scrapeChapters_distinct)
  from i c s show ?thesis by (intro conjI)
qed

text \<open>
  C9, as the code has it: \<^verbatim>\<open>saveState\<close> has no handler. When the write of the state file
  fails, \<^verbatim>\<open>saveState\<close> fails with the error of the write, and so does \<^verbatim>\<open>cleanup\<close>,
  before it closes the browser.
\<close>

theorem saveState_failure_propagates:
  "write_fault fs (path_join (outputDir cfg) ''state.json'') = Some err \<longrightarrow>
     saveState cfg st fs = Inl err
     \<and> cleanup cfg (Some st) (fs, running) = (Inl err, (fs, running))"
  by (simp add: saveState_with_fault cleanup_def)

theorem saveState_failure_propagates_witness:
  "write_fault faulty_fs (path_join (outputDir example_config) ''state.json'')
     = Some ''ENOSPC: no space left on device, write''
   \<and> saveState example_config example_state faulty_fs = Inl ''ENOSPC: no space left on device, write''
   \<and> cleanup example_config (Some example_state) (faulty_fs, True)
       = (Inl ''ENOSPC: no space left on device, write'', (faulty_fs, True))"
proof -
  have h: "write_fault faulty_fs (path_join (outputDir example_config) ''state.json'')
     = Some ''ENOSPC: no space left on device, write''"
    by (simp add: faulty_fs_def)
  from h saveState_failure_propagates [of faulty_fs example_config
      "''ENOSPC: no space left on device, write''" example_state True]
  show ?thesis by blast
qed

text \<open>
  C9 as stated fails on a file system that is full: \<^verbatim>\<open>saveState\<close> does not return
  normally, and \<^verbatim>\<open>cleanup\<close> leaves the browser running.
\<close>

theorem saveState_failure_counterexample:
  "saveState example_config example_state faulty_fs = Inl ''ENOSPC: no space left on device, write''
   \<and> cleanup example_config (Some example_state) (faulty_fs, True)
       = (Inl ''ENOSPC: no space left on device, write'', (faulty_fs, True))"
  by (simp add: saveState_def writeFile_def cleanup_def Let_def faulty_fs_def)

section \<open>Properties of the wait for network idle\<close>

lemma idle_loop_error:
  "idle_loop timeout idleTime d evs = Inl e \<Longrightarrow> e = ''Network idle timeout''"
  by (induction timeout idleTime d evs rule: idle_loop.induct)
     (auto split: if_splits net_event.splits)

lemma idle_loop_outcomes:
  "idle_loop timeout idleTime d evs = Inr () \<or> idle_loop timeout idleTime d evs = Inl ''Network idle timeout''"
  using idle_loop_error [of timeout idleTime d evs] by (cases "idle_loop timeout idleTime d evs") auto

lemma response_split_Cons:
  "(\<exists>pre t post. x # xs = pre @ (t, Response) # post \<and> P t post) \<longleftrightarrow>
     (\<exists>t. x = (t, Response) \<and> P t xs) \<or> (\<exists>pre t post. xs = pre @ (t, Response) # post \<and> P t post)"
proof
  assume "\<exists>pre t post. x # xs = pre @ (t, Response) # post \<and> P t post"
  then obtain pre t post where d: "x # xs = pre @ (t, Response) # post" and p: "P t post"
    by blast
  show "(\<exists>t. x = (t, Response) \<and> P t xs) \<or> (\<exists>pre t post. xs = pre @ (t, Response) # post \<and> P t post)"
  proof (cases pre)
    case Nil
    with d p show ?thesis by simp
  next
    case (Cons y pre')
    with d have "xs = pre' @ (t, Response) # post" by simp
    with p show ?thesis by blast
  qed
next
  assume "(\<exists>t. x = (t, Response) \<and> P t xs) \<or> (\<exists>pre t post. xs = pre @ (t, Response) # post \<and> P t post)"
  then show "\<exists>pre t post. x # xs = pre @ (t, Response) # post \<and> P t post"
  proof
    assume "\<exists>t. x = (t, Response) \<and> P t xs"
    then obtain t where "x # xs = [] @ (t, Response) # xs" "P t xs" by auto
    then show ?thesis by blast
  next
    assume "\<exists>pre t post. xs = pre @ (t, Response) # post \<and> P t post"
    then obtain pre t post where "x # xs = (x # pre) @ (t, Response) # post" "P t post" by auto
    then show ?thesis by blast
  qed
qed

lemma idle_loop_resolves_iff:
  assumes "sorted (map fst evs)"
  shows "(idle_loop timeout idleTime d evs = Inr ()) =
     (before_timeout d timeout \<and> (evs = [] \<or> fires_by d (fst (hd evs)))
      \<or> (\<exists>pre t post. evs = pre @ (t, Response) # post \<and> t + idleTime < timeout
            \<and> (post = [] \<or> t + idleTime \<le> fst (hd post))))"
  using assms
proof (induction evs arbitrary: d)
  case Nil
  then show ?case by simp
next
  case (Cons x rest)
  obtain t0 ev where x: "x = (t0, ev)" by (cases x)
  from Cons.prems x have later: "\<And>y. y \<in> set rest \<Longrightarrow> t0 \<le> fst y" and srt: "sorted (map fst rest)"
    by auto
  let ?P = "\<lambda>t post. t + idleTime < timeout \<and> (post = [] \<or> t + idleTime \<le> fst (hd post))"
  let ?D = "\<lambda>xs. \<exists>pre t post. xs = pre @ (t, Response) # post \<and> ?P t post"
  have split: "?D (x # rest) \<longleftrightarrow> (\<exists>t. x = (t, Response) \<and> ?P t rest) \<or> ?D rest"
    by (rule response_split_Cons)
  show ?case
  proof (cases "fires_by d t0 \<and> before_timeout d timeout")
    case True
    with x show ?thesis by simp
  next
    case notfired: False
    then have nf: "(fires_by d t0 \<and> before_timeout d timeout) = False" by simp
    show ?thesis
    proof (cases "timeout \<le> t0")
      case True
      have "\<not> ?D (x # rest)"
      proof
        assume "?D (x # rest)"
        then obtain pre t post where d: "x # rest = pre @ (t, Response) # post"
          and p: "t + idleTime < timeout" by blast
        from d have "(t, Response) \<in> set (x # rest)" by simp
        with x later have "t0 \<le> t" by auto
        with True p show False by simp
      qed
      moreover from True x have "idle_loop timeout idleTime d (x # rest) = Inl ''Network idle timeout''"
        by (simp add: nf)
      ultimately show ?thesis using notfired x by auto
    next
      case False
      show ?thesis
      proof (cases ev)
        case Request
        with x False have "idle_loop timeout idleTime d (x # rest)
            = idle_loop timeout idleTime Cleared rest"
          by (simp add: nf)
        moreover from Request x have "?D (x # rest) \<longleftrightarrow> ?D rest"
          using split by simp
        ultimately show ?thesis
          using Cons.IH [OF srt, of Cleared] notfired x
          by (auto simp: before_timeout_def)
      next
        case Response
        with x False have "idle_loop timeout idleTime d (x # rest)
            = idle_loop timeout idleTime (Later (t0 + idleTime)) rest"
          by (simp add: nf)
        moreover from Response x have "?D (x # rest) \<longleftrightarrow> ?P t0 rest \<or> ?D rest"
          using split by simp
        ultimately show ?thesis
          using Cons.IH [OF srt, of "Later (t0 + idleTime)"] notfired x
          by (auto simp: before_timeout_def fires_by_def)
      qed
    qed
  qed
qed

text \<open>
  C5, as the code has it: a response event restarts the idle timer with the idle time,
  while a request event only clears it. So for every trace in order of time the wait
  resolves in exactly two cases: no event arrives during the first idle time, or some
  response is followed by silence for the idle time, ending before the overall timeout.
  In every other case, and so whenever a request is followed by silence, the wait is
  rejected with the timeout error.
\<close>

theorem waitForNetworkIdle_settles_iff:
  "(sorted (map fst evs) \<longrightarrow>
      (waitForNetworkIdle timeout idleTime evs = Inr ()) =
        (idleTime \<le> timeout \<and> (evs = [] \<or> idleTime \<le> fst (hd evs))
         \<or> (\<exists>pre t post. evs = pre @ (t, Response) # post \<and> t + idleTime < timeout
               \<and> (post = [] \<or> t + idleTime \<le> fst (hd post)))))
   \<and> (waitForNetworkIdle timeout idleTime evs = Inr ()
       \<or> waitForNetworkIdle timeout idleTime evs = Inl ''Network idle timeout'')"
proof (intro conjI impI)
  assume "sorted (map fst evs)"
  from idle_loop_resolves_iff [OF this, of timeout idleTime "First idleTime"]
  show "(waitForNetworkIdle timeout idleTime evs = Inr ()) =
        (idleTime \<le> timeout \<and> (evs = [] \<or> idleTime \<le> fst (hd evs))
         \<or> (\<exists>pre t post. evs = pre @ (t, Response) # post \<and> t + idleTime < timeout
               \<and> (post = [] \<or> t + idleTime \<le> fst (hd post))))"
    by (simp add: waitForNetworkIdle_def before_timeout_def fires_by_def)
next
  show "waitForNetworkIdle timeout idleTime evs = Inr ()
       \<or> waitForNetworkIdle timeout idleTime evs = Inl ''Network idle timeout''"
    unfolding waitForNetworkIdle_def by (rule idle_loop_outcomes)
qed

theorem waitForNetworkIdle_settles_iff_witness:
  "sorted (map fst [(100::nat, Request), (300, Response), (2000, Request)])
   \<and> waitForNetworkIdle 30000 500 [(100, Request), (300, Response), (2000, Request)] = Inr ()
   \<and> sorted (map fst [(400::nat, Response), (600, Request)])
   \<and> waitForNetworkIdle 30000 500 [(400, Response), (600, Request)] = Inl ''Network idle timeout''
   \<and> sorted (map fst [(100::nat, Request)])
   \<and> waitForNetworkIdle 30000 500 [(100, Request)] = Inl ''Network idle timeout''"
proof -
  let ?a = "[(100::nat, Request), (300, Response), (2000, Request)]"
  let ?b = "[(400::nat, Response), (600, Request)]"
  let ?c = "[(100::nat, Request)]"
  have sa: "sorted (map fst ?a)" and sb: "sorted (map fst ?b)" and sc: "sorted (map fst ?c)"
    by simp_all
  note ta = waitForNetworkIdle_settles_iff [of ?a 30000 500]
  note tb = waitForNetworkIdle_settles_iff [of ?b 30000 500]
  note tc = waitForNetworkIdle_settles_iff [of ?c 30000 500]
  have "?a = [(100, Request)] @ (300, Response) # [(2000, Request)]
        \<and> (300::nat) + 500 < 30000
        \<and> ([(2000::nat, Request)] = [] \<or> (300::nat) + 500 \<le> fst (hd [(2000::nat, Request)]))"
    by simp
  then have "\<exists>pre t post. ?a = pre @ (t, Response) # post \<and> t + 500 < 30000
               \<and> (post = [] \<or> t + 500 \<le> fst (hd post))"
    by blast
  with mp [OF conjunct1 [OF ta] sa]
  have ra: "waitForNetworkIdle 30000 500 ?a = Inr ()" by blast
  have nb: "\<not> (\<exists>pre t post. ?b = pre @ (t, Response) # post \<and> t + 500 < 30000
               \<and> (post = [] \<or> t + 500 \<le> fst (hd post)))"
    by (simp add: response_split_Cons)
  have "\<not> ((500::nat) \<le> 30000 \<and> (?b = [] \<or> 500 \<le> fst (hd ?b)))" by simp
  with nb mp [OF conjunct1 [OF tb] sb]
  have "waitForNetworkIdle 30000 500 ?b \<noteq> Inr ()" by blast
  with conjunct2 [OF tb]
  have rb: "waitForNetworkIdle 30000 500 ?b = Inl ''Network idle timeout''" by blast
  have nc: "\<not> (\<exists>pre t post. ?c = pre @ (t, Response) # post \<and> t + 500 < 30000
               \<and> (post = [] \<or> t + 500 \<le> fst (hd post)))"
    by (simp add: response_split_Cons)
  have "\<not> ((500::nat) \<le> 30000 \<and> (?c = [] \<or> 500 \<le> fst (hd ?c)))" by simp
  with nc mp [OF conjunct1 [OF tc] sc]
  have "waitForNetworkIdle 30000 500 ?c \<noteq> Inr ()" by blast
  with conjunct2 [OF tc]
  have rc: "waitForNetworkIdle 30000 500 ?c = Inl ''Network idle timeout''" by blast
  show ?thesis by (intro conjI) (rule sa ra sb rb sc rc)+
qed

text \<open>
  C5 as stated fails for a request: after a request at 100 ms and nothing else, the wait
  with the default times does not resolve.
\<close>

theorem waitForNetworkIdle_request_counterexample:
  "waitForNetworkIdle 30000 500 [(100, Request)] \<noteq> Inr ()"
  by (simp add: waitForNetworkIdle_def fires_by_def before_timeout_def)

text \<open>
  C4, as the code has it: when the overall timer fires the wait is rejected with the error
  \<^verbatim>\<open>Network idle timeout\<close>; \<^verbatim>\<open>safeWaitForLoadState\<close> passes the rejection on, and its
  callers \<^verbatim>\<open>extractMetadata\<close> and \<^verbatim>\<open>extractChapterList\<close> fail with it, whatever the
  page holds.
\<close>

theorem quiescence_timeout_fails:
  "safeWaitForLoadState page = Inl e \<longrightarrow>
     e = ''Network idle timeout''
     \<and> extractMetadata page = Inl ''Metadata extraction failed: Network idle timeout''
     \<and> extractChapterList page = Inl ''Chapter list extraction failed: Network idle timeout''"
proof
  assume a: "safeWaitForLoadState page = Inl e"
  then have e: "e = ''Network idle timeout''"
    unfolding safeWaitForLoadState_def waitForNetworkIdle_def by (rule idle_loop_error)
  with a show "e = ''Network idle timeout''
     \<and> extractMetadata page = Inl ''Metadata extraction failed: Network idle timeout''
     \<and> extractChapterList page = Inl ''Chapter list extraction failed: Network idle timeout''"
    by (simp add: extractMetadata_def extractChapterList_def)
qed

theorem quiescence_timeout_fails_witness:
  "safeWaitForLoadState busy_page = Inl ''Network idle timeout''
   \<and> extractMetadata busy_page = Inl ''Metadata extraction failed: Network idle timeout''
   \<and> extractChapterList busy_page = Inl ''Chapter list extraction failed: Network idle timeout''"
proof -
  have h: "safeWaitForLoadState busy_page = Inl ''Network idle timeout''"
    by (simp add: safeWaitForLoadState_def waitForNetworkIdle_def busy_page_def
        fires_by_def before_timeout_def)
  from h quiescence_timeout_fails [of busy_page "''Network idle timeout''"]
  show ?thesis by blast
qed

text \<open>
  C4 as stated fails on a page that keeps a request open: its metadata could be
  extracted and is valid, yet \<^verbatim>\<open>extractMetadata\<close> does not return it.
\<close>

theorem quiescence_timeout_counterexample:
  "metadata_eval busy_page = Inr example_metadata
   \<and> validateData_metadata example_metadata
   \<and> safeWaitForLoadState busy_page = Inl ''Network idle timeout''
   \<and> extractMetadata busy_page \<noteq> Inr example_metadata"
  by (simp add: safeWaitForLoadState_def waitForNetworkIdle_def busy_page_def extractMetadata_def
      validateData_metadata_def example_metadata_def fires_by_def before_timeout_def)

section \<open>Properties of the content extraction\<close>

text \<open>
  When some selector's first match is long enough, the loop stops at the first such
  selector and that element is the container. When none is, the loop runs to its end and
  the container is whatever the last selector matched.
\<close>

lemma select_container_long:
  "select_container doc sels c = Some e \<Longrightarrow> long_enough e \<Longrightarrow>
   \<exists>pre sel post. sels = pre @ sel # post \<and> querySelector doc sel = Some e
      \<and> list_all (\<lambda>s. case querySelector doc s of None \<Rightarrow> True | Some x \<Rightarrow> \<not> long_enough x) pre
   \<or> (c = Some e \<and> sels = [])"
proof (induction sels arbitrary: c)
  case Nil
  then show ?case by simp
next
  case (Cons sel sels)
  show ?case
  proof (cases "querySelector doc sel")
    case None
    with Cons.prems have "select_container doc sels None = Some e" by simp
    from Cons.IH [OF this Cons.prems(2)] obtain pre s post where
      "sels = pre @ s # post" "querySelector doc s = Some e"
      "list_all (\<lambda>s. case querySelector doc s of None \<Rightarrow> True | Some x \<Rightarrow> \<not> long_enough x) pre"
      by auto
    with None have "sel # sels = (sel # pre) @ s # post \<and> querySelector doc s = Some e
      \<and> list_all (\<lambda>s. case querySelector doc s of None \<Rightarrow> True | Some x \<Rightarrow> \<not> long_enough x) (sel # pre)"
      by simp
    then show ?thesis by blast
  next
    case (Some x)
    show ?thesis
    proof (cases "long_enough x")
      case True
      with Some Cons.prems have "x = e" by simp
      with Some have "sel # sels = [] @ sel # sels \<and> querySelector doc sel = Some e
        \<and> list_all (\<lambda>s. case querySelector doc s of None \<Rightarrow> True | Some x \<Rightarrow> \<not> long_enough x) []"
        by simp
      then show ?thesis by blast
    next
      case False
      with Some Cons.prems have r: "select_container doc sels (Some x) = Some e" by simp
      from Cons.IH [OF r Cons.prems(2)] False Cons.prems(2) obtain pre s post where
        "sels = pre @ s # post" "querySelector doc s = Some e"
        "list_all (\<lambda>s. case querySelector doc s of None \<Rightarrow> True | Some x \<Rightarrow> \<not> long_enough x) pre"
        by auto
      with Some False have "sel # sels = (sel # pre) @ s # post \<and> querySelector doc s = Some e
        \<and> list_all (\<lambda>s. case querySelector doc s of None \<Rightarrow> True | Some x \<Rightarrow> \<not> long_enough x) (sel # pre)"
        by simp
      then show ?thesis by blast
    qed
  qed
qed

lemma select_container_none_long:
  "list_all (\<lambda>s. case querySelector doc s of None \<Rightarrow> True | Some x \<Rightarrow> \<not> long_enough x) sels \<Longrightarrow>
   sels \<noteq> [] \<Longrightarrow> select_container doc sels c = querySelector doc (last sels)"
proof (induction sels arbitrary: c)
  case Nil
  then show ?case by simp
next
  case (Cons sel sels)
  then show ?case by (cases sels) (auto split: option.splits)
qed

lemma select_container_first_long:
  assumes "select_container doc sels None = Some e" and "long_enough e"
  shows "\<exists>pre sel post. sels = pre @ sel # post \<and> querySelector doc sel = Some e
      \<and> list_all (\<lambda>s. case querySelector doc s of None \<Rightarrow> True | Some x \<Rightarrow> \<not> long_enough x) pre"
  using select_container_long [OF assms] by auto

lemma select_container_finds_long:
  "list_ex (\<lambda>s. case querySelector doc s of None \<Rightarrow> False | Some x \<Rightarrow> long_enough x) sels \<Longrightarrow>
   \<exists>e. select_container doc sels c = Some e \<and> long_enough e"
  by (induction sels arbitrary: c) (auto split: option.splits)

text \<open>
  C8 at a page that still shows its placeholder, \<^verbatim>\<open><div class="content">Loading...</div>\<close>:
  no selector's first match has more than 100 characters, yet the last selector matches
  the placeholder, the container is not empty, and \<^verbatim>\<open>extractChapterContent\<close> returns the
  placeholder's content instead of failing.
\<close>

theorem extractChapterContent_skeleton:
  "list_all (\<lambda>s. case querySelector skeleton_page s of None \<Rightarrow> True | Some x \<Rightarrow> length (trim (textContent x)) \<le> 100)
      contentSelectors
   \<and> evaluate_content serialize skeleton_page = Inr (serialize skeleton_element)
   \<and> extractChapterContent cleanContent serialize (\<lambda>address. Inr skeleton_page) chapterInfo
      = Inr \<lparr> info = chapterInfo, content = cleanContent (fst (serialize skeleton_element)),
              images = fst (snd (serialize skeleton_element)),
              wordCount = snd (snd (serialize skeleton_element)) \<rparr>"
proof -
  have q: "querySelector skeleton_page (ClassSel ''chapter-content'') = None"
    "querySelector skeleton_page (ClassSel ''content'') = Some skeleton_element"
    "querySelector skeleton_page (ClassSel ''chapter-body'') = None"
    "querySelector skeleton_page (ClassSel ''novel-content'') = None"
    "querySelector skeleton_page (ClassSel ''reader-content'') = None"
    "querySelector skeleton_page (ClassSel ''text-content'') = None"
    "querySelector skeleton_page (IdSel ''content'') = None"
    "querySelector skeleton_page (ClassSel ''post-content'') = None"
    "querySelector skeleton_page (ClassContains ''content'') = Some skeleton_element"
    by (simp_all add: querySelector_def skeleton_page_def skeleton_element_def matches_def
        classList_def isWhiteSpace_def isAsciiWhitespace_def)
  have t: "trim (textContent skeleton_element) = ''Loading...''"
    by (simp add: skeleton_element_def trim_def isWhiteSpace_def)
  then have short: "\<not> long_enough skeleton_element"
    by (simp add: long_enough_def)
  have a: "list_all (\<lambda>s. case querySelector skeleton_page s of None \<Rightarrow> True
                        | Some x \<Rightarrow> length (trim (textContent x)) \<le> 100) contentSelectors"
    by (simp add: contentSelectors_def q t)
  have s: "select_container skeleton_page contentSelectors None = Some skeleton_element"
    by (simp add: contentSelectors_def q short)
  then have b: "evaluate_content serialize skeleton_page = Inr (serialize skeleton_element)"
    by (simp add: evaluate_content_def)
  then have c: "extractChapterContent cleanContent serialize (\<lambda>address. Inr skeleton_page) chapterInfo
      = Inr \<lparr> info = chapterInfo, content = cleanContent (fst (serialize skeleton_element)),
              images = fst (snd (serialize skeleton_element)),
              wordCount = snd (snd (serialize skeleton_element)) \<rparr>"
    by (simp add: extractChapterContent_def validateData_content_def split: prod.splits)
  from a b c show ?thesis by (intro conjI)
qed

end
